theory Spec2Isabelle
  imports Main "HOL-Library.AList" "HOL-Library.Word"
begin

section \<open>The file system the backup code runs on\<close>

text \<open>
  The backup and restore code of the application (\<^verbatim>\<open>utils/backupV2.ts\<close>, the backups
  screen, \<^verbatim>\<open>database/db.native.ts\<close>) talks to the device through
  \<^verbatim>\<open>expo-file-system/legacy\<close>. That library is not part of the repository, so its
  operations are modelled here by what the code relies on: a file system is a finite
  list of paths with their nodes (the list order is the order a directory listing
  reports), every operation either throws or returns, and an operation that throws
  leaves the file system as it was. Whether an operation throws for a reason other than
  a missing source (no space, no permission, a move across volumes) is decided by the
  fault predicates of the environment, so that every \<^verbatim>\<open>catch\<close> of the source is a
  branch of the model. The predicates are fixed for a run: the same operation on the
  same paths throws every time or never. A path is the string the code builds; a
  directory is listed under the string it is asked for (\<^verbatim>\<open>SQLite/\<close> with its slash).
\<close>

type_synonym path = string

type_synonym bytes = "8 word list"

datatype node = File bytes | Dir

type_synonym fs = "(path \<times> node) list"

datatype error =
    NotFound
  | InfoFailed
  | ReadDirFailed
  | CopyFailed
  | MoveFailed
  | DeleteFailed
  | MkdirFailed
  | WriteFailed
  | ReadFailed
  | ExternalFailure

text \<open>The fields of a JavaScript \<^verbatim>\<open>Date\<close> that \<^verbatim>\<open>timestamp()\<close> reads.\<close>

record date =
  getFullYear :: int
  getMonth :: int
  getDate :: int
  getHours :: int
  getMinutes :: int
  getSeconds :: int
  getTimezoneOffset :: int

text \<open>
  The environment of a run: the document directory (\<^verbatim>\<open>DOC_DIR\<close>, that is
  \<^verbatim>\<open>documentDirectory ?? cacheDirectory ?? ''\<close>), the faults of the file system, the
  clock (\<^verbatim>\<open>new Date()\<close>), and the handle-release helper of \<^verbatim>\<open>database/db.ts\<close>
  that \<^verbatim>\<open>backupV2.ts\<close> binds at load time (\<^verbatim>\<open>undefined\<close> when neither
  \<^verbatim>\<open>require\<close> finds it). The helper opens, checkpoints and closes database handles:
  it may rewrite files, return a flag, or throw.
\<close>

record env =
  doc_dir :: path
  info_throws :: "path \<Rightarrow> bool"
  readdir_throws :: "path \<Rightarrow> bool"
  copy_throws :: "path \<Rightarrow> path \<Rightarrow> bool"
  move_throws :: "path \<Rightarrow> path \<Rightarrow> bool"
  delete_throws :: "path \<Rightarrow> bool"
  mkdir_throws :: "path \<Rightarrow> bool"
  write_throws :: "path \<Rightarrow> bool"
  now :: date
  closeDatabaseHandlesForBackup :: "(fs \<Rightarrow> (error + bool) \<times> fs) option"

record file_info =
  exists :: bool
  isDirectory :: bool

definition lookup :: "fs \<Rightarrow> path \<Rightarrow> node option" where
  "lookup fs p = map_of fs p"

text \<open>\<^verbatim>\<open>s.startsWith(p)\<close> and \<^verbatim>\<open>s.endsWith(p)\<close> of JavaScript.\<close>

fun startsWith :: "string \<Rightarrow> string \<Rightarrow> bool" where
  "startsWith s [] = True"
| "startsWith [] (c # cs) = False"
| "startsWith (x # xs) (c # cs) = (x = c \<and> startsWith xs cs)"

definition endsWith :: "string \<Rightarrow> string \<Rightarrow> bool" where
  "endsWith s p = startsWith (rev s) (rev p)"

definition getInfoAsync :: "env \<Rightarrow> fs \<Rightarrow> path \<Rightarrow> error + file_info" where
  "getInfoAsync env fs p =
     (if info_throws env p then Inl InfoFailed
      else Inr \<lparr>exists = (lookup fs p \<noteq> None), isDirectory = (lookup fs p = Some Dir)\<rparr>)"

definition is_entry_name :: "string \<Rightarrow> bool" where
  "is_entry_name s = (s \<noteq> [] \<and> CHR ''/'' \<notin> set s)"

definition entries :: "path \<Rightarrow> fs \<Rightarrow> string list" where
  "entries d fs =
     map (\<lambda>(p, n). drop (length d) p)
       (filter (\<lambda>(p, n). startsWith p d \<and> is_entry_name (drop (length d) p)) fs)"

definition readDirectoryAsync :: "env \<Rightarrow> fs \<Rightarrow> path \<Rightarrow> error + string list" where
  "readDirectoryAsync env fs d =
     (if readdir_throws env d \<or> lookup fs d \<noteq> Some Dir then Inl ReadDirFailed
      else Inr (entries d fs))"

definition copyAsync :: "env \<Rightarrow> fs \<Rightarrow> path \<Rightarrow> path \<Rightarrow> error + fs" where
  "copyAsync env fs from to =
     (if copy_throws env from to then Inl CopyFailed
      else case lookup fs from of
        None \<Rightarrow> Inl CopyFailed
      | Some n \<Rightarrow> Inr (AList.update to n fs))"

definition moveAsync :: "env \<Rightarrow> fs \<Rightarrow> path \<Rightarrow> path \<Rightarrow> error + fs" where
  "moveAsync env fs from to =
     (if move_throws env from to then Inl MoveFailed
      else case lookup fs from of
        None \<Rightarrow> Inl MoveFailed
      | Some n \<Rightarrow> Inr (if from = to then fs else AList.delete from (AList.update to n fs)))"

text \<open>\<^verbatim>\<open>deleteAsync(p, { idempotent: true })\<close>: a missing path is not an error.\<close>

definition deleteAsync :: "env \<Rightarrow> fs \<Rightarrow> path \<Rightarrow> error + fs" where
  "deleteAsync env fs p =
     (if delete_throws env p then Inl DeleteFailed else Inr (AList.delete p fs))"

text \<open>\<^verbatim>\<open>makeDirectoryAsync(p, { intermediates: true })\<close>: an existing directory is kept.\<close>

definition makeDirectoryAsync :: "env \<Rightarrow> fs \<Rightarrow> path \<Rightarrow> error + fs" where
  "makeDirectoryAsync env fs p =
     (if mkdir_throws env p then Inl MkdirFailed
      else case lookup fs p of
        None \<Rightarrow> Inr (AList.update p Dir fs)
      | Some Dir \<Rightarrow> Inr fs
      | Some (File b) \<Rightarrow> Inl MkdirFailed)"

definition writeAsStringAsync :: "env \<Rightarrow> fs \<Rightarrow> path \<Rightarrow> bytes \<Rightarrow> error + fs" where
  "writeAsStringAsync env fs p b =
     (if write_throws env p then Inl WriteFailed else Inr (AList.update p (File b) fs))"

section \<open>Path resolver (\<^verbatim>\<open>resolveDatabasePath\<close>)\<close>

definition SQLITE_DIR :: "env \<Rightarrow> path" where
  "SQLITE_DIR env = doc_dir env @ ''SQLite/''"

definition BACKUP_DIR :: "env \<Rightarrow> path" where
  "BACKUP_DIR env = doc_dir env @ ''backups/''"

definition META_FILE :: "env \<Rightarrow> path" where
  "META_FILE env = doc_dir env @ ''backup_meta.json''"

definition DB_CANDIDATES :: "string list" where
  "DB_CANDIDATES = [''debitmanager.db'', ''debitmanager'']"

text \<open>The \<^verbatim>\<open>for (const name of DB_CANDIDATES)\<close> loop: a probe that throws moves on.\<close>

fun probe_candidates :: "env \<Rightarrow> fs \<Rightarrow> string list \<Rightarrow> path option" where
  "probe_candidates env fs [] = None"
| "probe_candidates env fs (name # names) =
     (let candidate = SQLITE_DIR env @ name in
      case getInfoAsync env fs candidate of
        Inl e \<Rightarrow> probe_candidates env fs names
      | Inr info \<Rightarrow>
          if exists info \<and> \<not> isDirectory info then Some candidate
          else probe_candidates env fs names)"

definition resolveDatabasePath :: "env \<Rightarrow> fs \<Rightarrow> error + path" where
  "resolveDatabasePath env fs =
     (case probe_candidates env fs DB_CANDIDATES of
        Some candidate \<Rightarrow> Inr candidate
      | None \<Rightarrow>
          (case readDirectoryAsync env fs (SQLITE_DIR env) of
             Inl e \<Rightarrow> Inl NotFound
           | Inr listing \<Rightarrow>
               (case find (\<lambda>f. startsWith f ''debitmanager'') listing of
                  None \<Rightarrow> Inl NotFound
                | Some match \<Rightarrow>
                    if match \<noteq> [] then Inr (SQLITE_DIR env @ match) else Inl NotFound)))"

text \<open>
  What the code takes a regular file to be: the probe returns, and reports
  \<^verbatim>\<open>exists && !isDirectory\<close>. A probe that throws counts as "does not exist".
\<close>

definition is_regular_file :: "env \<Rightarrow> fs \<Rightarrow> path \<Rightarrow> bool" where
  "is_regular_file env fs p =
     (case getInfoAsync env fs p of
        Inl e \<Rightarrow> False
      | Inr info \<Rightarrow> exists info \<and> \<not> isDirectory info)"

text \<open>The listing the fallback sees: nothing when the listing throws.\<close>

definition listing_seen :: "env \<Rightarrow> fs \<Rightarrow> string list" where
  "listing_seen env fs =
     (case readDirectoryAsync env fs (SQLITE_DIR env) of Inl e \<Rightarrow> [] | Inr listing \<Rightarrow> listing)"

definition canonical_db :: "env \<Rightarrow> path" where
  "canonical_db env = SQLITE_DIR env @ ''debitmanager.db''"

definition bare_db :: "env \<Rightarrow> path" where
  "bare_db env = SQLITE_DIR env @ ''debitmanager''"

section \<open>Snapshot engine (\<^verbatim>\<open>timestamp\<close>, \<^verbatim>\<open>backupDatabase\<close>)\<close>

text \<open>
  \<^verbatim>\<open>String(n)\<close> of an integer (below \<open>10\<^sup>2\<^sup>1\<close> in size, where JavaScript still prints
  plain decimal digits) and \<^verbatim>\<open>s.padStart(2, '0')\<close>.
\<close>

definition digit_char :: "nat \<Rightarrow> char" where
  "digit_char d = ''0123456789'' ! d"

function digits :: "nat \<Rightarrow> string" where
  "digits n = (if n < 10 then [digit_char n] else digits (n div 10) @ [digit_char (n mod 10)])"
  by pat_completeness auto
termination
  by (relation "measure id") auto

declare digits.simps [simp del]

definition String :: "int \<Rightarrow> string" where
  "String n = (if n < 0 then CHR ''-'' # digits (nat (- n)) else digits (nat n))"

definition padStart2 :: "string \<Rightarrow> string" where
  "padStart2 s = replicate (2 - length s) CHR ''0'' @ s"

definition pad :: "int \<Rightarrow> string" where
  "pad n = padStart2 (String n)"

definition timestamp :: "date \<Rightarrow> string" where
  "timestamp d =
     (let year = getFullYear d;
          month = pad (getMonth d + 1);
          day = pad (getDate d);
          hours = pad (getHours d);
          minutes = pad (getMinutes d);
          seconds = pad (getSeconds d);
          tzOffsetMinutes = - getTimezoneOffset d;
          tzSign = (if tzOffsetMinutes \<ge> 0 then ''+'' else ''-'');
          tzHours = pad (\<bar>tzOffsetMinutes\<bar> div 60);
          tzMins = pad (\<bar>tzOffsetMinutes\<bar> mod 60)
      in String year @ ''-'' @ month @ ''-'' @ day @ ''T'' @ hours @ ''-'' @ minutes @ ''-''
           @ seconds @ tzSign @ tzHours @ tzMins)"

text \<open>The shape \<^verbatim>\<open>YYYY-MM-DDTHH-mm-ss\<plusminus>HHMM\<close>, character class by character class.\<close>

datatype char_class = Digit | Sign | Lit char

definition is_digit :: "char \<Rightarrow> bool" where
  "is_digit c = (c \<in> set ''0123456789'')"

fun in_class :: "char_class \<Rightarrow> char \<Rightarrow> bool" where
  "in_class Digit c = is_digit c"
| "in_class Sign c = (c = CHR ''+'' \<or> c = CHR ''-'')"
| "in_class (Lit l) c = (c = l)"

fun matches :: "char_class list \<Rightarrow> string \<Rightarrow> bool" where
  "matches [] [] = True"
| "matches (k # ks) (c # cs) = (in_class k c \<and> matches ks cs)"
| "matches [] (c # cs) = False"
| "matches (k # ks) [] = False"

definition stamp_pattern :: "char_class list" where
  "stamp_pattern =
     [Digit, Digit, Digit, Digit, Lit CHR ''-'', Digit, Digit, Lit CHR ''-'', Digit, Digit,
      Lit CHR ''T'', Digit, Digit, Lit CHR ''-'', Digit, Digit, Lit CHR ''-'', Digit, Digit,
      Sign, Digit, Digit, Digit, Digit]"

text \<open>The ranges of the fields of a \<^verbatim>\<open>Date\<close> whose year has four digits.\<close>

definition wall_clock :: "date \<Rightarrow> bool" where
  "wall_clock d =
     (1000 \<le> getFullYear d \<and> getFullYear d \<le> 9999 \<and>
      0 \<le> getMonth d \<and> getMonth d \<le> 11 \<and>
      1 \<le> getDate d \<and> getDate d \<le> 31 \<and>
      0 \<le> getHours d \<and> getHours d \<le> 23 \<and>
      0 \<le> getMinutes d \<and> getMinutes d \<le> 59 \<and>
      0 \<le> getSeconds d \<and> getSeconds d \<le> 59)"

text \<open>
  What a stamp laid out as \<^verbatim>\<open>YYYY-MM-DDTHH-mm-ss\<plusminus>HHMM\<close> says, field by field:
  the number that each group of digits denotes, and the sign character.
\<close>

definition digit_value :: "char \<Rightarrow> nat" where
  "digit_value c = length (takeWhile (\<lambda>x. x \<noteq> c) ''0123456789'')"

definition number :: "string \<Rightarrow> nat" where
  "number s = foldl (\<lambda>n c. 10 * n + digit_value c) 0 s"

record reading =
  read_year :: nat
  read_month :: nat
  read_day :: nat
  read_hours :: nat
  read_minutes :: nat
  read_seconds :: nat
  read_sign :: char
  read_offset_hours :: nat
  read_offset_minutes :: nat

definition read_stamp :: "string \<Rightarrow> reading" where
  "read_stamp s =
     \<lparr>read_year = number (take 4 s),
      read_month = number (take 2 (drop 5 s)),
      read_day = number (take 2 (drop 8 s)),
      read_hours = number (take 2 (drop 11 s)),
      read_minutes = number (take 2 (drop 14 s)),
      read_seconds = number (take 2 (drop 17 s)),
      read_sign = s ! 19,
      read_offset_hours = number (take 2 (drop 20 s)),
      read_offset_minutes = number (take 2 (drop 22 s))\<rparr>"

text \<open>
  \<^verbatim>\<open>backupDatabase\<close>, step by step. First the block that prefers the \<^verbatim>\<open>.db\<close>
  sibling of the resolved path when that sibling is a regular file.
\<close>

definition prefer_canonical :: "env \<Rightarrow> fs \<Rightarrow> path \<Rightarrow> path" where
  "prefer_canonical env fs dbPath =
     (let candidateDb = (if endsWith dbPath ''.db'' then dbPath else dbPath @ ''.db'') in
      case getInfoAsync env fs candidateDb of
        Inl e \<Rightarrow> dbPath
      | Inr info \<Rightarrow> if exists info \<and> \<not> isDirectory info then candidateDb else dbPath)"

text \<open>
  The handle release: the helper's flag \<^verbatim>\<open>didFlush\<close> and the file system it leaves.
  A helper that is missing or throws gives \<^verbatim>\<open>false\<close>; the flag only selects a log
  line and a 150 ms pause.
\<close>

definition flush_handles :: "env \<Rightarrow> fs \<Rightarrow> bool \<times> fs" where
  "flush_handles env fs =
     (case closeDatabaseHandlesForBackup env of
        None \<Rightarrow> (False, fs)
      | Some close \<Rightarrow>
          (case close fs of
             (Inl e, fs') \<Rightarrow> (False, fs')
           | (Inr didFlush, fs') \<Rightarrow> (didFlush, fs')))"

text \<open>A bare source is copied to its \<^verbatim>\<open>.db\<close> sibling; if that throws, the bare path stays.\<close>

definition canonical_copy :: "env \<Rightarrow> fs \<Rightarrow> path \<Rightarrow> path \<times> fs" where
  "canonical_copy env fs dbPath =
     (if \<not> endsWith dbPath ''.db'' then
        (let candidateDb = dbPath @ ''.db'' in
         case copyAsync env fs dbPath candidateDb of
           Inl e \<Rightarrow> (dbPath, fs)
         | Inr fs' \<Rightarrow> (candidateDb, fs'))
      else (dbPath, fs))"

text \<open>\<^verbatim>\<open>getInfoAsync(p).catch(() => ({ exists: false }))\<close>, then \<^verbatim>\<open>.exists\<close>.\<close>

definition sidecar_exists :: "env \<Rightarrow> fs \<Rightarrow> path \<Rightarrow> bool" where
  "sidecar_exists env fs p =
     (case getInfoAsync env fs p of Inl e \<Rightarrow> False | Inr info \<Rightarrow> exists info)"

definition copy_if :: "env \<Rightarrow> bool \<Rightarrow> fs \<Rightarrow> path \<Rightarrow> path \<Rightarrow> fs" where
  "copy_if env present fs from to =
     (if present then (case copyAsync env fs from to of Inl e \<Rightarrow> fs | Inr fs' \<Rightarrow> fs') else fs)"

definition copy_sidecars :: "env \<Rightarrow> fs \<Rightarrow> path \<Rightarrow> path \<Rightarrow> fs" where
  "copy_sidecars env fs dbPath dest =
     (let walSrc = dbPath @ ''-wal'';
          shmSrc = dbPath @ ''-shm'';
          walInfo = sidecar_exists env fs walSrc;
          shmInfo = sidecar_exists env fs shmSrc;
          fs1 = copy_if env walInfo fs walSrc (dest @ ''-wal'')
      in copy_if env shmInfo fs1 shmSrc (dest @ ''-shm''))"

definition backup_dest :: "env \<Rightarrow> path" where
  "backup_dest env = BACKUP_DIR env @ ''debitmanager-'' @ timestamp (now env) @ ''.db''"

text \<open>The backups directory, the artifact, and the sidecars (best effort).\<close>

definition write_artifact :: "env \<Rightarrow> fs \<Rightarrow> path \<Rightarrow> (error + path) \<times> fs" where
  "write_artifact env fs dbPath =
     (case makeDirectoryAsync env fs (BACKUP_DIR env) of
        Inl e \<Rightarrow> (Inl e, fs)
      | Inr fs3 \<Rightarrow>
          (let dest = backup_dest env in
           case copyAsync env fs3 dbPath dest of
             Inl e \<Rightarrow> (Inl e, fs3)
           | Inr fs4 \<Rightarrow> (Inr dest, copy_sidecars env fs4 dbPath dest)))"

definition backupDatabase :: "env \<Rightarrow> fs \<Rightarrow> (error + path) \<times> fs" where
  "backupDatabase env fs =
     (case resolveDatabasePath env fs of
        Inl e \<Rightarrow> (Inl e, fs)
      | Inr resolved \<Rightarrow>
          (let dbPath = prefer_canonical env fs resolved;
               (didFlush, fs1) = flush_handles env fs;
               (dbPath2, fs2) = canonical_copy env fs1 dbPath
           in write_artifact env fs2 dbPath2))"

text \<open>
  The path the backup starts from (the resolved path after the preference for the
  \<^verbatim>\<open>.db\<close> sibling), the file system once the handles have been released, and the
  path the artifact is copied from (the \<^verbatim>\<open>.db\<close> copy of a bare source when that copy
  succeeded).
\<close>

definition backup_source :: "env \<Rightarrow> fs \<Rightarrow> error + path" where
  "backup_source env fs =
     (case resolveDatabasePath env fs of
        Inl e \<Rightarrow> Inl e
      | Inr resolved \<Rightarrow> Inr (prefer_canonical env fs resolved))"

definition after_release :: "env \<Rightarrow> fs \<Rightarrow> fs" where
  "after_release env fs = snd (flush_handles env fs)"

definition copied_from :: "env \<Rightarrow> fs \<Rightarrow> error + path" where
  "copied_from env fs =
     (case backup_source env fs of
        Inl e \<Rightarrow> Inl e
      | Inr dbPath \<Rightarrow> Inr (fst (canonical_copy env (after_release env fs) dbPath)))"

section \<open>Remount coordinator (\<^verbatim>\<open>refreshSQLiteProvider\<close> of \<^verbatim>\<open>db.native.ts\<close>)\<close>

text \<open>
  The module state: whether a remount callback is registered
  (\<^verbatim>\<open>providerRemountCallbackNative\<close>), the time of the last accepted request
  (\<^verbatim>\<open>lastNativeRefresh\<close>, initially 0), and, to observe the callback, the number of
  times it has been invoked. The callback is a closure of the layout; \<open>callback_throws u k\<close>
  says that its invocation number \<open>k\<close> throws. Inside the \<^verbatim>\<open>try\<close>, the loop that
  opens, checkpoints and closes the database handles catches every error of its own and
  touches none of this state; only binding \<^verbatim>\<open>expo-sqlite\<close> before the loop can throw
  (\<open>release_throws\<close>). Requests are run one after another: the debounce test and the
  update of \<^verbatim>\<open>lastNativeRefresh\<close> come before the first \<^verbatim>\<open>await\<close>, so a request
  that overlaps an earlier one sees the state a later one would see.
\<close>

record coordinator =
  providerRemountCallbackNative :: bool
  lastNativeRefresh :: int
  invocations :: nat

record ui =
  callback_throws :: "nat \<Rightarrow> bool"
  release_throws :: bool

definition registerSQLiteProviderRemount :: "coordinator \<Rightarrow> coordinator" where
  "registerSQLiteProviderRemount st = st\<lparr>providerRemountCallbackNative := True\<rparr>"

definition invoke_callback :: "ui \<Rightarrow> coordinator \<Rightarrow> (error + unit) \<times> coordinator" where
  "invoke_callback u st =
     ((if callback_throws u (invocations st) then Inl ExternalFailure else Inr ()),
      st\<lparr>invocations := Suc (invocations st)\<rparr>)"

text \<open>The body of the \<^verbatim>\<open>try\<close>: release the handles, then request the remount.\<close>

definition refresh_try :: "ui \<Rightarrow> coordinator \<Rightarrow> (error + unit) \<times> coordinator" where
  "refresh_try u st =
     (if release_throws u then (Inl ExternalFailure, st)
      else if providerRemountCallbackNative st then invoke_callback u st
      else (Inr (), st))"

text \<open>\<open>t\<close> is \<^verbatim>\<open>Date.now()\<close> at the call.\<close>

definition refreshSQLiteProvider :: "ui \<Rightarrow> int \<Rightarrow> coordinator \<Rightarrow> bool \<times> coordinator" where
  "refreshSQLiteProvider u t st =
     (if t - lastNativeRefresh st < 1000 then (False, st)
      else
        (let st1 = st\<lparr>lastNativeRefresh := t\<rparr> in
         case refresh_try u st1 of
           (Inr ok, st2) \<Rightarrow> (True, st2)
         | (Inl e, st2) \<Rightarrow>
             (False,
              if providerRemountCallbackNative st2 then snd (invoke_callback u st2) else st2)))"

section \<open>Upload sinks (\<^verbatim>\<open>backupNow\<close>)\<close>

text \<open>
  The collaborators of the sinks: the Google Drive service of the application
  (\<^verbatim>\<open>utils/googleDriveService\<close>), the configured upload endpoint reached through
  \<^verbatim>\<open>fetch\<close>, and \<^verbatim>\<open>expo-sharing\<close>. Each call returns or throws. Every call made is
  recorded as an event, so that the order of the attempts can be stated.
\<close>

record sinks =
  isSignedInToGoogleDrive :: "error + bool"
  getAccessToken :: "error + string"
  getOrCreateBackupFolder :: "string \<Rightarrow> error + string"
  uploadFileToGoogleDrive :: "string \<Rightarrow> path \<Rightarrow> string \<Rightarrow> string \<Rightarrow> error + unit"
  uploadUrl :: "string option"
  authToken :: "string option"
  read_throws :: "path \<Rightarrow> bool"
  fetch_put :: "string \<Rightarrow> string option \<Rightarrow> bytes \<Rightarrow> error + bool"
  isAvailableAsync :: "error + bool"
  shareAsync :: "path \<Rightarrow> error + unit"
  lastBackupISO :: bytes

datatype sink = Cloud | Http | Share

datatype event =
    DriveSignedIn
  | DriveToken
  | DriveFolder
  | DriveUpload path string
  | HttpRead path
  | HttpPut string
  | ShareAvailable
  | ShareSheet path

fun sink_of :: "event \<Rightarrow> sink" where
  "sink_of DriveSignedIn = Cloud"
| "sink_of DriveToken = Cloud"
| "sink_of DriveFolder = Cloud"
| "sink_of (DriveUpload p n) = Cloud"
| "sink_of (HttpRead p) = Http"
| "sink_of (HttpPut u) = Http"
| "sink_of ShareAvailable = Share"
| "sink_of (ShareSheet p) = Share"

text \<open>\<^verbatim>\<open>uri.split('/').pop()\<close>: what follows the last slash.\<close>

definition last_segment :: "string \<Rightarrow> string" where
  "last_segment uri = rev (takeWhile (\<lambda>c. c \<noteq> CHR ''/'') (rev uri))"

definition uploadToGoogleDrive :: "env \<Rightarrow> sinks \<Rightarrow> path \<Rightarrow> bool \<times> event list" where
  "uploadToGoogleDrive env sk uri =
     (case isSignedInToGoogleDrive sk of
        Inl e \<Rightarrow> (False, [DriveSignedIn])
      | Inr isSignedIn \<Rightarrow>
          if \<not> isSignedIn then (False, [DriveSignedIn])
          else
            (case getAccessToken sk of
               Inl e \<Rightarrow> (False, [DriveSignedIn, DriveToken])
             | Inr accessToken \<Rightarrow>
                 (case getOrCreateBackupFolder sk accessToken of
                    Inl e \<Rightarrow> (False, [DriveSignedIn, DriveToken, DriveFolder])
                  | Inr folderId \<Rightarrow>
                      (let fileName =
                             (if last_segment uri \<noteq> [] then last_segment uri
                              else ''debitmanager-'' @ timestamp (now env) @ ''.db'')
                       in case uploadFileToGoogleDrive sk accessToken uri fileName folderId of
                            Inl e \<Rightarrow>
                              (False, [DriveSignedIn, DriveToken, DriveFolder,
                                 DriveUpload uri fileName])
                          | Inr ok \<Rightarrow>
                              (True, [DriveSignedIn, DriveToken, DriveFolder,
                                 DriveUpload uri fileName])))))"

text \<open>
  \<^verbatim>\<open>readAsStringAsync\<close> with Base64 and the decoding loop give back the bytes of the
  file; reading throws on a fault, a missing path or a directory.
\<close>

definition read_bytes :: "sinks \<Rightarrow> fs \<Rightarrow> path \<Rightarrow> error + bytes" where
  "read_bytes sk fs p =
     (if read_throws sk p then Inl ReadFailed
      else case lookup fs p of Some (File b) \<Rightarrow> Inr b | Some Dir \<Rightarrow> Inl ReadFailed
           | None \<Rightarrow> Inl ReadFailed)"

definition uploadBackupIfConfigured :: "sinks \<Rightarrow> fs \<Rightarrow> path \<Rightarrow> bool \<times> event list" where
  "uploadBackupIfConfigured sk fs uri =
     (case uploadUrl sk of
        None \<Rightarrow> (False, [])
      | Some url \<Rightarrow>
          if url = [] then (False, [])
          else
            (case read_bytes sk fs uri of
               Inl e \<Rightarrow> (False, [HttpRead uri])
             | Inr content \<Rightarrow>
                 (case fetch_put sk url (authToken sk) content of
                    Inl e \<Rightarrow> (False, [HttpRead uri, HttpPut url])
                  | Inr ok \<Rightarrow> (ok, [HttpRead uri, HttpPut url]))))"

definition shareBackup :: "sinks \<Rightarrow> path \<Rightarrow> (error + bool) \<times> event list" where
  "shareBackup sk uri =
     (case isAvailableAsync sk of
        Inl e \<Rightarrow> (Inl e, [ShareAvailable])
      | Inr available \<Rightarrow>
          if \<not> available then (Inr False, [ShareAvailable])
          else
            (case shareAsync sk uri of
               Inl e \<Rightarrow> (Inl e, [ShareAvailable, ShareSheet uri])
             | Inr ok \<Rightarrow> (Inr True, [ShareAvailable, ShareSheet uri])))"

text \<open>\<^verbatim>\<open>setLastBackupTimestamp\<close>: a write that throws is only logged.\<close>

definition setLastBackupTimestamp :: "env \<Rightarrow> sinks \<Rightarrow> fs \<Rightarrow> fs" where
  "setLastBackupTimestamp env sk fs =
     (case writeAsStringAsync env fs (META_FILE env) (lastBackupISO sk) of
        Inl e \<Rightarrow> fs
      | Inr fs' \<Rightarrow> fs')"

text \<open>The object \<^verbatim>\<open>{ uri, uploaded, shared, googleDrive }\<close> that \<^verbatim>\<open>backupNow\<close> returns.\<close>

record backup_result =
  result_uri :: path
  result_uploaded :: bool
  result_shared :: bool
  result_googleDrive :: bool

definition backupNow :: "env \<Rightarrow> sinks \<Rightarrow> fs \<Rightarrow> (error + backup_result) \<times> event list \<times> fs" where
  "backupNow env sk fs =
     (case backupDatabase env fs of
        (Inl e, fs1) \<Rightarrow> (Inl e, [], fs1)
      | (Inr u, fs1) \<Rightarrow>
          (let fs2 = setLastBackupTimestamp env sk fs1;
               (gd, t1) = uploadToGoogleDrive env sk u
           in if gd then
                (Inr \<lparr>result_uri = u, result_uploaded = False, result_shared = False,
                   result_googleDrive = gd\<rparr>, t1, fs2)
              else
                (let (up, t2) = uploadBackupIfConfigured sk fs2 u in
                 if \<not> up then
                   (let (sh, t3) = shareBackup sk u;
                        sh' = (case sh of Inl e \<Rightarrow> False | Inr b \<Rightarrow> b)
                    in (Inr \<lparr>result_uri = u, result_uploaded = up, result_shared = sh',
                        result_googleDrive = gd\<rparr>,
                        t1 @ t2 @ t3, fs2))
                 else
                   (Inr \<lparr>result_uri = u, result_uploaded = up, result_shared = False,
                      result_googleDrive = gd\<rparr>,
                    t1 @ t2, fs2))))"

section \<open>Restore engine (\<^verbatim>\<open>handleRestoreBackup\<close> of the backups screen)\<close>

text \<open>
  The collaborators of the restore: the handle-release helper as the screen binds it
  (\<^verbatim>\<open>require('../../database/db.ts')\<close>; absent when the \<^verbatim>\<open>require\<close> throws or the
  export is not a function), the live connection's \<^verbatim>\<open>execAsync\<close> and
  \<^verbatim>\<open>closeAsync\<close> (optional methods), the Google Drive restore, the document picker
  (\<open>None\<close>: cancelled, or no asset) and \<^verbatim>\<open>reloadApp\<close>. The database engine and the
  Drive restore may rewrite files.
\<close>

record screen =
  coreDb_closeDatabaseHandlesForBackup :: "(fs \<Rightarrow> (error + bool) \<times> fs) option"
  db_execAsync :: "(fs \<Rightarrow> (error + unit) \<times> fs) option"
  db_closeAsync :: "(fs \<Rightarrow> (error + unit) \<times> fs) option"
  restoreLatestBackupFromGoogleDrive :: "path \<Rightarrow> fs \<Rightarrow> (error + bool) \<times> fs"
  getDocumentAsync :: "error + path option"
  reloadApp :: "error + unit"

text \<open>
  What the user is told: the restore went through (the app reloads), the picker was
  cancelled, "Restore failed but pre-restore snapshot was restored", "Restore failed and
  rollback also failed", or "Restore failed" with the message of the error.
\<close>

datatype outcome = Restored | Cancelled | RolledBack | RollbackFailed error | Failed error

text \<open>
  The operations a restore attempts on the file system, each with the state it was
  attempted on (an operation that throws leaves that state as it is).
\<close>

datatype fsop = OpCopy path path | OpMove path path | OpDelete path

type_synonym oplog = "(fs \<times> fsop) list"

fun writes :: "fsop \<Rightarrow> path \<Rightarrow> bool" where
  "writes (OpCopy a b) p = (b = p)"
| "writes (OpMove a b) p = (a = p \<or> b = p)"
| "writes (OpDelete a) p = (a = p)"

text \<open>\<^verbatim>\<open>p.endsWith('.db') ? p : `${p}.db`\<close>\<close>

definition canonical_of :: "path \<Rightarrow> path" where
  "canonical_of p = (if endsWith p ''.db'' then p else p @ ''.db'')"

text \<open>\<^verbatim>\<open>try { await FileSystem.deleteAsync(p, { idempotent: true }); } catch {}\<close>\<close>

definition delete_quietly :: "env \<Rightarrow> fs \<Rightarrow> path \<Rightarrow> fs" where
  "delete_quietly env fs p = (case deleteAsync env fs p of Inl e \<Rightarrow> fs | Inr fs' \<Rightarrow> fs')"

text \<open>Move into place; if the move throws, copy and then delete the temporary file.\<close>

definition move_into_place :: "env \<Rightarrow> fs \<Rightarrow> path \<Rightarrow> path \<Rightarrow> (error + unit) \<times> fs \<times> oplog" where
  "move_into_place env fs tmp target =
     (case moveAsync env fs tmp target of
        Inr fs1 \<Rightarrow> (Inr (), fs1, [(fs, OpMove tmp target)])
      | Inl e \<Rightarrow>
          (case copyAsync env fs tmp target of
             Inl e2 \<Rightarrow> (Inl e2, fs, [(fs, OpMove tmp target), (fs, OpCopy tmp target)])
           | Inr fs1 \<Rightarrow>
               (case deleteAsync env fs1 tmp of
                  Inl e3 \<Rightarrow>
                    (Inl e3, fs1,
                     [(fs, OpMove tmp target), (fs, OpCopy tmp target), (fs1, OpDelete tmp)])
                | Inr fs2 \<Rightarrow>
                    (Inr (), fs2,
                     [(fs, OpMove tmp target), (fs, OpCopy tmp target), (fs1, OpDelete tmp)]))))"

text \<open>
  The local-file restore (the inner \<^verbatim>\<open>try\<close>): stage the picked file into
  \<^verbatim>\<open>.restore.tmp\<close>, swap it in, then remove the bare file and the sidecars.
\<close>

definition stage_and_swap ::
  "env \<Rightarrow> fs \<Rightarrow> path \<Rightarrow> path \<Rightarrow> path \<Rightarrow> (error + unit) \<times> fs \<times> oplog" where
  "stage_and_swap env fs picked DB_PATH CANONICAL_DB_PATH =
     (let tempRestore = CANONICAL_DB_PATH @ ''.restore.tmp'' in
      case copyAsync env fs picked tempRestore of
        Inl e \<Rightarrow> (Inl e, fs, [(fs, OpCopy picked tempRestore)])
      | Inr fs1 \<Rightarrow>
          (case move_into_place env fs1 tempRestore CANONICAL_DB_PATH of
             (Inl e, fs2, log) \<Rightarrow> (Inl e, fs2, (fs, OpCopy picked tempRestore) # log)
           | (Inr ok, fs2, log) \<Rightarrow>
               (let fs3 = (if CANONICAL_DB_PATH \<noteq> DB_PATH then delete_quietly env fs2 DB_PATH
                           else fs2);
                    fs4 = delete_quietly env fs3 (CANONICAL_DB_PATH @ ''-wal'');
                    fs5 = delete_quietly env fs4 (CANONICAL_DB_PATH @ ''-shm'')
                in (Inr (), fs5,
                    (fs, OpCopy picked tempRestore) # log
                      @ (if CANONICAL_DB_PATH \<noteq> DB_PATH then [(fs2, OpDelete DB_PATH)] else [])
                      @ [(fs3, OpDelete (CANONICAL_DB_PATH @ ''-wal'')),
                         (fs4, OpDelete (CANONICAL_DB_PATH @ ''-shm''))]))))"









text \<open>The \<^verbatim>\<open>catch\<close> block: roll back from the snapshot when there is one.\<close>

definition rollback_target :: "env \<Rightarrow> fs \<Rightarrow> path" where
  "rollback_target env fs =
     (case resolveDatabasePath env fs of
        Inl e \<Rightarrow> SQLITE_DIR env @ ''debitmanager.db''
      | Inr current \<Rightarrow> canonical_of current)"

definition rollback :: "env \<Rightarrow> screen \<Rightarrow> path \<Rightarrow> fs \<Rightarrow> outcome \<times> fs" where
  "rollback env sc preRestoreSnapshot fs =
     (let targetPath = rollback_target env fs;
          tmp = targetPath @ ''.rollback.tmp''
      in case copyAsync env fs preRestoreSnapshot tmp of
           Inl e \<Rightarrow> (RollbackFailed e, fs)
         | Inr fs1 \<Rightarrow>
             (case move_into_place env fs1 tmp targetPath of
                (Inl e, fs2, log) \<Rightarrow> (RollbackFailed e, fs2)
              | (Inr ok, fs2, log) \<Rightarrow>
                  (case reloadApp sc of
                     Inl e \<Rightarrow> (RollbackFailed e, fs2)
                   | Inr ok \<Rightarrow> (RolledBack, fs2))))"






subsection \<open>Example environments and states\<close>

definition quiet_env :: env where
  "quiet_env = \<lparr>doc_dir = ''/d/'', info_throws = (\<lambda>p. False), readdir_throws = (\<lambda>p. False),
     copy_throws = (\<lambda>a b. False), move_throws = (\<lambda>a b. False), delete_throws = (\<lambda>p. False),
     mkdir_throws = (\<lambda>p. False), write_throws = (\<lambda>p. False),
     now = \<lparr>getFullYear = 2024, getMonth = 2, getDate = 2, getHours = 14, getMinutes = 5,
       getSeconds = 9, getTimezoneOffset = - 330\<rparr>,
     closeDatabaseHandlesForBackup = None\<rparr>"

definition fs_both :: fs where
  "fs_both = [(''/d/SQLite/'', Dir), (''/d/SQLite/debitmanager'', File [1, 2]),
     (''/d/SQLite/debitmanager.db'', File [3, 4, 5])]"

definition fs_odd_name :: fs where
  "fs_odd_name = [(''/d/SQLite/'', Dir), (''/d/SQLite/notes.txt'', File [7]),
     (''/d/SQLite/debitmanager-old.sqlite'', File [1, 2, 3])]"

definition fs_wal_only :: fs where
  "fs_wal_only = [(''/d/SQLite/'', Dir), (''/d/SQLite/debitmanager.db-wal'', File [9])]"

definition fs_dir_named :: fs where
  "fs_dir_named = [(''/d/SQLite/'', Dir), (''/d/SQLite/debitmanager.db'', Dir)]"

definition fs_live :: fs where
  "fs_live = [(''/d/SQLite/'', Dir), (''/d/SQLite/debitmanager.db'', File [3, 4, 5]),
     (''/d/SQLite/debitmanager.db-wal'', File [6]), (''/d/SQLite/debitmanager.db-shm'', File [7, 8])]"

definition example_dest :: path where
  "example_dest = ''/d/backups/debitmanager-2024-03-02T14-05-09+0530.db''"

definition fs_live_backed_up :: fs where
  "fs_live_backed_up = fs_live @ [(''/d/backups/'', Dir), (example_dest, File [3, 4, 5]),
     (example_dest @ ''-wal'', File [6]), (example_dest @ ''-shm'', File [7, 8])]"

definition st0 :: coordinator where
  "st0 = \<lparr>providerRemountCallbackNative = True, lastNativeRefresh = 0, invocations = 0\<rparr>"

definition quiet_ui :: ui where
  "quiet_ui = \<lparr>callback_throws = (\<lambda>k. False), release_throws = False\<rparr>"

definition sinks_http :: sinks where
  "sinks_http = \<lparr>isSignedInToGoogleDrive = Inr False, getAccessToken = Inl ExternalFailure,
     getOrCreateBackupFolder = (\<lambda>t. Inl ExternalFailure),
     uploadFileToGoogleDrive = (\<lambda>t p n f. Inl ExternalFailure),
     uploadUrl = Some ''https://backup.example/db'', authToken = None,
     read_throws = (\<lambda>p. False), fetch_put = (\<lambda>u a b. Inr True),
     isAvailableAsync = Inr True, shareAsync = (\<lambda>p. Inr ()), lastBackupISO = [1]\<rparr>"



definition fs_legacy :: fs where
  "fs_legacy = [(''/d/SQLite/'', Dir), (''/d/SQLite/debitmanager'', File [1, 2]),
     (''/cache/picked.db'', File [9, 9])]"









section \<open>Properties of the path resolver\<close>

lemma probe_canonical_first:
  "is_regular_file env fs (canonical_db env) \<Longrightarrow>
   probe_candidates env fs DB_CANDIDATES = Some (canonical_db env)"
  by (auto simp: is_regular_file_def canonical_db_def DB_CANDIDATES_def Let_def
      split: sum.splits)

text \<open>
  Claim C3. Whenever both \<^verbatim>\<open>SQLite/debitmanager.db\<close> and the bare
  \<^verbatim>\<open>SQLite/debitmanager\<close> exist as regular (non-directory) files,
  \<^verbatim>\<open>resolveDatabasePath()\<close> returns the canonical \<^verbatim>\<open>.db\<close> path: the candidates
  are probed in a fixed order, the canonical name first.
\<close>

theorem resolve_prefers_canonical:
  assumes "is_regular_file env fs (canonical_db env)"
      and "is_regular_file env fs (bare_db env)"
  shows "resolveDatabasePath env fs = Inr (canonical_db env)"
  using assms(1) by (simp add: resolveDatabasePath_def probe_canonical_first)

theorem resolve_prefers_canonical_witness:
  "is_regular_file quiet_env fs_both (canonical_db quiet_env) \<and>
   is_regular_file quiet_env fs_both (bare_db quiet_env) \<and>
   resolveDatabasePath quiet_env fs_both = Inr ''/d/SQLite/debitmanager.db''"
proof -
  have c: "is_regular_file quiet_env fs_both (canonical_db quiet_env)"
    by (simp add: is_regular_file_def getInfoAsync_def lookup_def canonical_db_def
        SQLITE_DIR_def quiet_env_def fs_both_def)
  have b: "is_regular_file quiet_env fs_both (bare_db quiet_env)"
    by (simp add: is_regular_file_def getInfoAsync_def lookup_def bare_db_def
        SQLITE_DIR_def quiet_env_def fs_both_def)
  have "canonical_db quiet_env = ''/d/SQLite/debitmanager.db''"
    by (simp add: canonical_db_def SQLITE_DIR_def quiet_env_def)
  with c b resolve_prefers_canonical [OF c b] show ?thesis by simp
qed

lemma probe_none_iff:
  "probe_candidates env fs DB_CANDIDATES = None \<longleftrightarrow>
   \<not> is_regular_file env fs (canonical_db env) \<and> \<not> is_regular_file env fs (bare_db env)"
  by (auto simp: is_regular_file_def canonical_db_def bare_db_def DB_CANDIDATES_def Let_def
      split: sum.splits)

lemma probe_some_regular:
  "probe_candidates env fs DB_CANDIDATES = Some c \<Longrightarrow> is_regular_file env fs c"
  by (auto simp: is_regular_file_def DB_CANDIDATES_def Let_def
      split: sum.splits if_splits)

lemma startsWith_nonempty: "startsWith f ''debitmanager'' \<Longrightarrow> f \<noteq> []"
  by (cases f) auto

lemma find_None_set: "find P xs = None \<longleftrightarrow> \<not> (\<exists>x\<in>set xs. P x)"
  by (induction xs) auto

lemma find_first: "\<forall>x\<in>set xs. \<not> P x \<Longrightarrow> P f \<Longrightarrow> find P (xs @ f # ys) = Some f"
  by (induction xs) auto

lemma find_Some_P: "find P xs = Some x \<Longrightarrow> P x"
  by (induction xs) (auto split: if_splits)

lemma resolve_fallback:
  assumes "probe_candidates env fs DB_CANDIDATES = None"
      and "find (\<lambda>f. startsWith f ''debitmanager'') (listing_seen env fs) = Some f"
  shows "resolveDatabasePath env fs = Inr (SQLITE_DIR env @ f)"
proof -
  from assms(2) have "f \<noteq> []"
    using find_Some_P startsWith_nonempty by fastforce
  with assms show ?thesis
    by (auto simp: resolveDatabasePath_def listing_seen_def split: sum.splits)
qed

lemma resolve_no_match:
  assumes "probe_candidates env fs DB_CANDIDATES = None"
      and "find (\<lambda>f. startsWith f ''debitmanager'') (listing_seen env fs) = None"
  shows "resolveDatabasePath env fs = Inl NotFound"
  using assms by (auto simp: resolveDatabasePath_def listing_seen_def split: sum.splits)

text \<open>
  Claim C7. \<^verbatim>\<open>resolveDatabasePath()\<close> fails with its NotFound error if and only if
  neither \<^verbatim>\<open>debitmanager.db\<close> nor the bare \<^verbatim>\<open>debitmanager\<close> exists as a regular
  file in the SQLite directory and the directory listing has no entry whose name starts
  with \<^verbatim>\<open>debitmanager\<close>; when the fixed candidates are absent and the listing has a
  prefix-matching entry (a file of a non-standard name), the fallback returns that
  entry's path instead of failing.
\<close>

theorem resolve_not_found_iff:
  "(resolveDatabasePath env fs = Inl NotFound \<longleftrightarrow>
      \<not> is_regular_file env fs (canonical_db env) \<and>
      \<not> is_regular_file env fs (bare_db env) \<and>
      \<not> (\<exists>f\<in>set (listing_seen env fs). startsWith f ''debitmanager'')) \<and>
   (\<not> is_regular_file env fs (canonical_db env) \<and>
    \<not> is_regular_file env fs (bare_db env) \<and>
    find (\<lambda>f. startsWith f ''debitmanager'') (listing_seen env fs) = Some f \<longrightarrow>
      resolveDatabasePath env fs = Inr (SQLITE_DIR env @ f))"
proof (cases "probe_candidates env fs DB_CANDIDATES")
  case (Some c)
  then show ?thesis
    using probe_none_iff [of env fs] by (auto simp: resolveDatabasePath_def)
next
  case None
  note pn = None
  show ?thesis
  proof (cases "find (\<lambda>f. startsWith f ''debitmanager'') (listing_seen env fs)")
    case None
    with pn show ?thesis
      using probe_none_iff [of env fs] resolve_no_match [of env fs]
        find_None_set [of "\<lambda>f. startsWith f ''debitmanager''" "listing_seen env fs"]
      by auto
  next
    case (Some g)
    with pn show ?thesis
      using probe_none_iff [of env fs] resolve_fallback [of env fs g]
        find_None_set [of "\<lambda>f. startsWith f ''debitmanager''" "listing_seen env fs"]
      by auto
  qed
qed

theorem resolve_not_found_iff_witness:
  "\<not> is_regular_file quiet_env fs_odd_name (canonical_db quiet_env) \<and>
   \<not> is_regular_file quiet_env fs_odd_name (bare_db quiet_env) \<and>
   find (\<lambda>f. startsWith f ''debitmanager'') (listing_seen quiet_env fs_odd_name) =
     Some ''debitmanager-old.sqlite'' \<and>
   resolveDatabasePath quiet_env fs_odd_name = Inr ''/d/SQLite/debitmanager-old.sqlite''"
proof -
  have c: "\<not> is_regular_file quiet_env fs_odd_name (canonical_db quiet_env)"
    by (simp add: is_regular_file_def getInfoAsync_def lookup_def canonical_db_def
        SQLITE_DIR_def quiet_env_def fs_odd_name_def)
  have b: "\<not> is_regular_file quiet_env fs_odd_name (bare_db quiet_env)"
    by (simp add: is_regular_file_def getInfoAsync_def lookup_def bare_db_def
        SQLITE_DIR_def quiet_env_def fs_odd_name_def)
  have l: "find (\<lambda>f. startsWith f ''debitmanager'') (listing_seen quiet_env fs_odd_name) =
      Some ''debitmanager-old.sqlite''"
    by (simp add: listing_seen_def readDirectoryAsync_def lookup_def entries_def
        is_entry_name_def SQLITE_DIR_def quiet_env_def fs_odd_name_def)
  have d: "SQLITE_DIR quiet_env = ''/d/SQLite/''"
    by (simp add: SQLITE_DIR_def quiet_env_def)
  from resolve_not_found_iff [of quiet_env fs_odd_name "''debitmanager-old.sqlite''"] c b l d
  show ?thesis by simp
qed

text \<open>
  Claim C10. When neither fixed candidate exists, the listing fallback returns the
  first directory entry, in listing order, whose name starts with \<^verbatim>\<open>debitmanager\<close>,
  whatever kind of node it names: nothing is asked of the entry but its name, whereas a
  fixed candidate is only returned when it is a regular (non-directory) file. So a
  directory holding only \<^verbatim>\<open>debitmanager.db-wal\<close> resolves to that sidecar, and a
  directory named \<^verbatim>\<open>debitmanager.db\<close> resolves to the directory.
\<close>

theorem resolve_fallback_first_entry_unchecked:
  "(\<not> is_regular_file env fs (canonical_db env) \<and>
    \<not> is_regular_file env fs (bare_db env) \<and>
    readDirectoryAsync env fs (SQLITE_DIR env) = Inr (xs @ f # ys) \<and>
    (\<forall>x\<in>set xs. \<not> startsWith x ''debitmanager'') \<and>
    startsWith f ''debitmanager'' \<longrightarrow>
      resolveDatabasePath env fs = Inr (SQLITE_DIR env @ f)) \<and>
   (\<forall>c. probe_candidates env fs DB_CANDIDATES = Some c \<longrightarrow>
      resolveDatabasePath env fs = Inr c \<and> is_regular_file env fs c)"
proof -
  have "resolveDatabasePath env fs = Inr (SQLITE_DIR env @ f)"
    if n: "\<not> is_regular_file env fs (canonical_db env)" "\<not> is_regular_file env fs (bare_db env)"
      and l: "readDirectoryAsync env fs (SQLITE_DIR env) = Inr (xs @ f # ys)"
      and x: "\<forall>x\<in>set xs. \<not> startsWith x ''debitmanager''"
      and m: "startsWith f ''debitmanager''"
  proof -
    have "probe_candidates env fs DB_CANDIDATES = None"
      using n by (simp add: probe_none_iff)
    moreover have "find (\<lambda>f. startsWith f ''debitmanager'') (listing_seen env fs) = Some f"
      using l x m by (simp add: listing_seen_def find_first)
    ultimately show ?thesis by (rule resolve_fallback)
  qed
  moreover have "resolveDatabasePath env fs = Inr c \<and> is_regular_file env fs c"
    if "probe_candidates env fs DB_CANDIDATES = Some c" for c
    using that probe_some_regular [OF that] by (simp add: resolveDatabasePath_def)
  ultimately show ?thesis by blast
qed

theorem resolve_fallback_first_entry_unchecked_witness:
  "resolveDatabasePath quiet_env fs_wal_only = Inr ''/d/SQLite/debitmanager.db-wal'' \<and>
   resolveDatabasePath quiet_env fs_dir_named = Inr ''/d/SQLite/debitmanager.db'' \<and>
   lookup fs_dir_named ''/d/SQLite/debitmanager.db'' = Some Dir"
proof -
  have d: "SQLITE_DIR quiet_env = ''/d/SQLite/''"
    by (simp add: SQLITE_DIR_def quiet_env_def)
  have w: "resolveDatabasePath quiet_env fs_wal_only = Inr ''/d/SQLite/debitmanager.db-wal''"
    using resolve_fallback_first_entry_unchecked
      [of quiet_env fs_wal_only "[]" "''debitmanager.db-wal''" "[]"]
    by (simp add: is_regular_file_def getInfoAsync_def lookup_def canonical_db_def bare_db_def
        readDirectoryAsync_def entries_def is_entry_name_def SQLITE_DIR_def quiet_env_def
        fs_wal_only_def)
  have r: "resolveDatabasePath quiet_env fs_dir_named = Inr ''/d/SQLite/debitmanager.db''"
    using resolve_fallback_first_entry_unchecked
      [of quiet_env fs_dir_named "[]" "''debitmanager.db''" "[]"]
    by (simp add: is_regular_file_def getInfoAsync_def lookup_def canonical_db_def bare_db_def
        readDirectoryAsync_def entries_def is_entry_name_def SQLITE_DIR_def quiet_env_def
        fs_dir_named_def)
  have "lookup fs_dir_named ''/d/SQLite/debitmanager.db'' = Some Dir"
    by (simp add: lookup_def fs_dir_named_def)
  with w r show ?thesis by simp
qed

section \<open>Properties of the timestamp\<close>


lemma digit_is_digit: "d < 10 \<Longrightarrow> is_digit (digit_char d)"
proof -
  assume "d < 10"
  then have "d \<in> {0, 1, 2, 3, 4, 5, 6, 7, 8, 9}" by auto
  then show ?thesis
    by (auto simp: is_digit_def digit_char_def)
qed

lemma digits_small: "n < 10 \<Longrightarrow> digits n = [digit_char n]"
  by (simp add: digits.simps)

lemma digits_two: "10 \<le> n \<Longrightarrow> n < 100 \<Longrightarrow> digits n = [digit_char (n div 10), digit_char (n mod 10)]"
  by (subst digits.simps [of n]) (simp add: digits_small)

lemma digits_four:
  assumes "1000 \<le> n" "n < 10000"
  shows "digits n = [digit_char (n div 1000), digit_char (n div 100 mod 10),
     digit_char (n div 10 mod 10), digit_char (n mod 10)]"
proof -
  have a: "digits n = digits (n div 10) @ [digit_char (n mod 10)]"
    using assms by (subst digits.simps [of n]) simp
  have "\<not> n div 10 < 10" using assms by arith
  then have b: "digits (n div 10) = digits (n div 10 div 10) @ [digit_char (n div 10 mod 10)]"
    by (subst digits.simps [of "n div 10"]) simp
  have c: "digits (n div 10 div 10) = [digit_char (n div 10 div 10 div 10), digit_char (n div 10 div 10 mod 10)]"
    using assms by (intro digits_two) auto
  have d: "n div 10 div 10 = n div 100" "n div 10 div 10 div 10 = n div 1000"
    by (simp_all add: div_mult2_eq)
  show ?thesis using a b c d by simp
qed

lemma matches_append:
  "matches ks xs \<Longrightarrow> matches ls ys \<Longrightarrow> matches (ks @ ls) (xs @ ys)"
  by (induction ks xs rule: matches.induct) auto

lemma pad_two_digits:
  assumes "0 \<le> n" "n \<le> 99"
  shows "matches [Digit, Digit] (pad n)"
proof (cases "n < 10")
  case True
  with assms have "digits (nat n) = [digit_char (nat n)]" "nat n < 10"
    by (auto simp: digits_small)
  with assms show ?thesis
    using digit_is_digit [of "nat n"] digit_is_digit [of 0]
    by (simp add: pad_def String_def padStart2_def is_digit_def)
next
  case False
  with assms have "digits (nat n) = [digit_char (nat n div 10), digit_char (nat n mod 10)]"
    by (intro digits_two) auto
  moreover from assms have "nat n div 10 < 10" by auto
  ultimately show ?thesis
    using assms digit_is_digit [of "nat n div 10"] digit_is_digit [of "nat n mod 10"]
    by (simp add: pad_def String_def padStart2_def)
qed

lemma year_four_digits:
  assumes "1000 \<le> y" "y \<le> 9999"
  shows "matches [Digit, Digit, Digit, Digit] (String y)"
proof -
  from assms have "digits (nat y) = [digit_char (nat y div 1000), digit_char (nat y div 100 mod 10),
     digit_char (nat y div 10 mod 10), digit_char (nat y mod 10)]"
    by (intro digits_four) auto
  moreover from assms have "nat y div 1000 < 10" by auto
  ultimately show ?thesis
    using assms digit_is_digit [of "nat y div 1000"] digit_is_digit [of "nat y div 100 mod 10"]
      digit_is_digit [of "nat y div 10 mod 10"] digit_is_digit [of "nat y mod 10"]
    by (simp add: String_def)
qed

lemma timestamp_matches:
  assumes w: "wall_clock d" and tz: "\<bar>getTimezoneOffset d\<bar> < 6000"
  shows "matches stamp_pattern (timestamp d)"
proof -
  let ?tz = "- getTimezoneOffset d"
  have y: "matches [Digit, Digit, Digit, Digit] (String (getFullYear d))"
    using w by (intro year_four_digits) (auto simp: wall_clock_def)
  have mo: "matches [Digit, Digit] (pad (getMonth d + 1))"
    using w by (intro pad_two_digits) (auto simp: wall_clock_def)
  have da: "matches [Digit, Digit] (pad (getDate d))"
    using w by (intro pad_two_digits) (auto simp: wall_clock_def)
  have h: "matches [Digit, Digit] (pad (getHours d))"
    using w by (intro pad_two_digits) (auto simp: wall_clock_def)
  have mi: "matches [Digit, Digit] (pad (getMinutes d))"
    using w by (intro pad_two_digits) (auto simp: wall_clock_def)
  have s: "matches [Digit, Digit] (pad (getSeconds d))"
    using w by (intro pad_two_digits) (auto simp: wall_clock_def)
  have th: "matches [Digit, Digit] (pad (\<bar>?tz\<bar> div 60))"
    using tz by (intro pad_two_digits) auto
  have tm: "matches [Digit, Digit] (pad (\<bar>?tz\<bar> mod 60))"
    by (intro pad_two_digits) auto
  have sg: "matches [Sign] (if ?tz \<ge> 0 then ''+'' else ''-'')" by simp
  have l: "\<And>c. matches [Lit c] [c]" by simp
  have "matches ([Digit, Digit, Digit, Digit] @ [Lit CHR ''-''] @ [Digit, Digit] @ [Lit CHR ''-'']
      @ [Digit, Digit] @ [Lit CHR ''T''] @ [Digit, Digit] @ [Lit CHR ''-''] @ [Digit, Digit]
      @ [Lit CHR ''-''] @ [Digit, Digit] @ [Sign] @ [Digit, Digit] @ [Digit, Digit])
    (String (getFullYear d) @ ''-'' @ pad (getMonth d + 1) @ ''-'' @ pad (getDate d) @ ''T''
      @ pad (getHours d) @ ''-'' @ pad (getMinutes d) @ ''-'' @ pad (getSeconds d)
      @ (if ?tz \<ge> 0 then ''+'' else ''-'') @ pad (\<bar>?tz\<bar> div 60) @ pad (\<bar>?tz\<bar> mod 60))"
    by (intro matches_append y mo da h mi s th tm sg l)
  then show ?thesis
    by (simp add: timestamp_def stamp_pattern_def Let_def)
qed


lemma digit_value_digit: "d < 10 \<Longrightarrow> digit_value (digit_char d) = d"
proof -
  assume "d < 10"
  then have "d \<in> {0, 1, 2, 3, 4, 5, 6, 7, 8, 9}" by auto
  then show ?thesis
    by (auto simp: digit_value_def digit_char_def)
qed

lemma number_two:
  "a < 10 \<Longrightarrow> b < 10 \<Longrightarrow> number [digit_char a, digit_char b] = 10 * a + b"
  by (simp add: number_def digit_value_digit)

lemma number_four:
  "a < 10 \<Longrightarrow> b < 10 \<Longrightarrow> c < 10 \<Longrightarrow> d < 10 \<Longrightarrow>
   number [digit_char a, digit_char b, digit_char c, digit_char d]
     = 1000 * a + 100 * b + 10 * c + d"
  by (simp add: number_def digit_value_digit)

lemma pad_explicit:
  assumes "0 \<le> n" "n \<le> 99"
  shows "pad n = [digit_char (nat n div 10), digit_char (nat n mod 10)]"
proof (cases "n < 10")
  case True
  with assms have "digits (nat n) = [digit_char (nat n)]"
    by (auto simp: digits_small)
  with assms True show ?thesis
    by (simp add: pad_def String_def padStart2_def digit_char_def)
next
  case False
  with assms have "digits (nat n) = [digit_char (nat n div 10), digit_char (nat n mod 10)]"
    by (intro digits_two) auto
  with assms show ?thesis
    by (simp add: pad_def String_def padStart2_def)
qed

lemma year_explicit:
  assumes "1000 \<le> y" "y \<le> 9999"
  shows "String y = [digit_char (nat y div 1000), digit_char (nat y div 100 mod 10),
     digit_char (nat y div 10 mod 10), digit_char (nat y mod 10)]"
proof -
  from assms have "digits (nat y) = [digit_char (nat y div 1000), digit_char (nat y div 100 mod 10),
     digit_char (nat y div 10 mod 10), digit_char (nat y mod 10)]"
    by (intro digits_four) auto
  with assms show ?thesis by (simp add: String_def)
qed

lemma read_pad:
  assumes "0 \<le> n" "n \<le> 99"
  shows "number (pad n) = nat n"
proof -
  have "nat n div 10 < 10" "nat n mod 10 < 10" using assms by auto
  then have "number (pad n) = 10 * (nat n div 10) + nat n mod 10"
    using assms by (simp add: pad_explicit number_two)
  then show ?thesis by simp
qed

lemma four_digits_sum:
  fixes n :: nat
  shows "1000 * (n div 1000) + 100 * (n div 100 mod 10) + 10 * (n div 10 mod 10) + n mod 10 = n"
proof -
  have a: "n = 10 * (n div 10) + n mod 10" by simp
  have "n div 10 div 10 = n div 100" "n div 100 div 10 = n div 1000"
    by (simp_all add: div_mult2_eq [symmetric])
  then have b: "n div 10 = 10 * (n div 100) + n div 10 mod 10"
    and c: "n div 100 = 10 * (n div 1000) + n div 100 mod 10"
    using mult_div_mod_eq [of 10 "n div 10"] mult_div_mod_eq [of 10 "n div 100"] by simp_all
  from a b c show ?thesis by linarith
qed

lemma read_year:
  assumes "1000 \<le> y" "y \<le> 9999"
  shows "number (String y) = nat y"
proof -
  have "nat y div 1000 < 10" using assms by auto
  then have "number (String y) = 1000 * (nat y div 1000) + 100 * (nat y div 100 mod 10)
      + 10 * (nat y div 10 mod 10) + nat y mod 10"
    using assms by (simp add: year_explicit number_four)
  also have "\<dots> = nat y" by (rule four_digits_sum)
  finally show ?thesis .
qed

lemma pad_length: "0 \<le> n \<Longrightarrow> n \<le> 99 \<Longrightarrow> length (pad n) = 2"
  by (simp add: pad_explicit)

lemma year_length: "1000 \<le> y \<Longrightarrow> y \<le> 9999 \<Longrightarrow> length (String y) = 4"
  by (simp add: year_explicit)

lemma timestamp_reads_back:
  assumes w: "wall_clock d" and tz: "\<bar>getTimezoneOffset d\<bar> < 6000"
  shows "read_stamp (timestamp d) =
     \<lparr>read_year = nat (getFullYear d),
      read_month = nat (getMonth d) + 1,
      read_day = nat (getDate d),
      read_hours = nat (getHours d),
      read_minutes = nat (getMinutes d),
      read_seconds = nat (getSeconds d),
      read_sign = (if 0 \<le> - getTimezoneOffset d then CHR ''+'' else CHR ''-''),
      read_offset_hours = nat \<bar>getTimezoneOffset d\<bar> div 60,
      read_offset_minutes = nat \<bar>getTimezoneOffset d\<bar> mod 60\<rparr>"
proof -
  let ?tz = "- getTimezoneOffset d"
  let ?sg = "if ?tz \<ge> 0 then ''+'' else ''-''"
  from w have r: "1000 \<le> getFullYear d" "getFullYear d \<le> 9999"
    "0 \<le> getMonth d + 1" "getMonth d + 1 \<le> 99" "0 \<le> getDate d" "getDate d \<le> 99"
    "0 \<le> getHours d" "getHours d \<le> 99" "0 \<le> getMinutes d" "getMinutes d \<le> 99"
    "0 \<le> getSeconds d" "getSeconds d \<le> 99"
    by (auto simp: wall_clock_def)
  from tz have o: "0 \<le> \<bar>?tz\<bar> div 60" "\<bar>?tz\<bar> div 60 \<le> 99" "0 \<le> \<bar>?tz\<bar> mod 60" "\<bar>?tz\<bar> mod 60 \<le> 99"
    by auto
  obtain y1 y2 y3 y4 where y: "String (getFullYear d) = [y1, y2, y3, y4]"
    using year_explicit [OF r(1,2)] by blast
  obtain m1 m2 where mo: "pad (getMonth d + 1) = [m1, m2]"
    using pad_explicit [OF r(3,4)] by blast
  obtain d1 d2 where da: "pad (getDate d) = [d1, d2]"
    using pad_explicit [OF r(5,6)] by blast
  obtain h1 h2 where h: "pad (getHours d) = [h1, h2]"
    using pad_explicit [OF r(7,8)] by blast
  obtain i1 i2 where mi: "pad (getMinutes d) = [i1, i2]"
    using pad_explicit [OF r(9,10)] by blast
  obtain s1 s2 where s: "pad (getSeconds d) = [s1, s2]"
    using pad_explicit [OF r(11,12)] by blast
  obtain a1 a2 where th: "pad (\<bar>?tz\<bar> div 60) = [a1, a2]"
    using pad_explicit [OF o(1,2)] by blast
  obtain b1 b2 where tm: "pad (\<bar>?tz\<bar> mod 60) = [b1, b2]"
    using pad_explicit [OF o(3,4)] by blast
  obtain g where g: "?sg = [g]" "g = (if 0 \<le> ?tz then CHR ''+'' else CHR ''-'')"
    by auto
  have t: "timestamp d = [y1, y2, y3, y4, CHR ''-'', m1, m2, CHR ''-'', d1, d2, CHR ''T'',
      h1, h2, CHR ''-'', i1, i2, CHR ''-'', s1, s2, g, a1, a2, b1, b2]"
    using y mo da h mi s th tm g(1)
    by (simp add: timestamp_def Let_def)
  have "number [y1, y2, y3, y4] = nat (getFullYear d)"
    using read_year [OF r(1,2)] y by simp
  moreover have "number [m1, m2] = nat (getMonth d) + 1"
    using read_pad [OF r(3,4)] mo r(3) w by (simp add: wall_clock_def nat_add_distrib)
  moreover have "number [d1, d2] = nat (getDate d)"
    using read_pad [OF r(5,6)] da by simp
  moreover have "number [h1, h2] = nat (getHours d)"
    using read_pad [OF r(7,8)] h by simp
  moreover have "number [i1, i2] = nat (getMinutes d)"
    using read_pad [OF r(9,10)] mi by simp
  moreover have "number [s1, s2] = nat (getSeconds d)"
    using read_pad [OF r(11,12)] s by simp
  moreover have "number [a1, a2] = nat \<bar>getTimezoneOffset d\<bar> div 60"
    using read_pad [OF o(1,2)] th by (simp add: nat_div_distrib)
  moreover have "number [b1, b2] = nat \<bar>getTimezoneOffset d\<bar> mod 60"
    using read_pad [OF o(3,4)] tm by (simp add: nat_mod_distrib)
  ultimately show ?thesis
    using g(2) by (simp add: t read_stamp_def)
qed

section \<open>Properties of the snapshot engine\<close>


lemma lookup_update: "lookup (AList.update k v fs) p = (if p = k then Some v else lookup fs p)"
  by (simp add: lookup_def update_conv')

lemma lookup_delete: "lookup (AList.delete k fs) p = (if p = k then None else lookup fs p)"
  by (simp add: lookup_def delete_conv')

lemma copyAsync_lookup:
  assumes "copyAsync env fs a b = Inr fs'"
  shows "lookup fs' p = (if p = b then lookup fs a else lookup fs p)" and "lookup fs a \<noteq> None"
  using assms by (auto simp: copyAsync_def lookup_update split: if_splits option.splits)

lemma makeDirectoryAsync_lookup:
  assumes "makeDirectoryAsync env fs d = Inr fs'" and "p \<noteq> d"
  shows "lookup fs' p = lookup fs p"
  using assms by (auto simp: makeDirectoryAsync_def lookup_update split: if_splits option.splits node.splits)

lemma sqlite_not_backup: "SQLITE_DIR env @ x \<noteq> BACKUP_DIR env @ y"
  by (simp add: SQLITE_DIR_def BACKUP_DIR_def)

lemma probe_in_sqlite:
  "probe_candidates env fs names = Some c \<Longrightarrow> \<exists>n. c = SQLITE_DIR env @ n"
  by (induction names) (auto simp: Let_def split: sum.splits if_splits)

lemma resolve_in_sqlite:
  "resolveDatabasePath env fs = Inr p \<Longrightarrow> \<exists>n. p = SQLITE_DIR env @ n"
  by (auto simp: resolveDatabasePath_def dest: probe_in_sqlite
      split: option.splits sum.splits if_splits)

lemma prefer_canonical_cases:
  "prefer_canonical env fs p = p \<or> prefer_canonical env fs p = p @ ''.db''"
  by (auto simp: prefer_canonical_def Let_def split: sum.splits)

lemma backup_source_in_sqlite:
  "backup_source env fs = Inr src \<Longrightarrow> \<exists>n. src = SQLITE_DIR env @ n"
proof -
  assume "backup_source env fs = Inr src"
  then obtain r where r: "resolveDatabasePath env fs = Inr r" "src = prefer_canonical env fs r"
    by (auto simp: backup_source_def split: sum.splits)
  from r(1) obtain n where "r = SQLITE_DIR env @ n" using resolve_in_sqlite by blast
  with r(2) prefer_canonical_cases [of env fs r] show ?thesis by auto
qed

lemma canonical_copy_cases:
  "canonical_copy env fs p = (p, fs) \<or>
   (\<exists>fs'. canonical_copy env fs p = (p @ ''.db'', fs') \<and> copyAsync env fs p (p @ ''.db'') = Inr fs')"
  by (auto simp: canonical_copy_def Let_def split: sum.splits)

lemma backupDatabase_unfold:
  "backupDatabase env fs =
     (case backup_source env fs of
        Inl e \<Rightarrow> (Inl e, fs)
      | Inr src \<Rightarrow>
          write_artifact env (snd (canonical_copy env (after_release env fs) src))
            (fst (canonical_copy env (after_release env fs) src)))"
  by (simp add: backupDatabase_def backup_source_def after_release_def Let_def split_beta
      split: sum.splits)

lemma write_artifact_success:
  assumes "write_artifact env fs p = (Inr uri, fs')"
  shows "\<exists>fs3 fs4. makeDirectoryAsync env fs (BACKUP_DIR env) = Inr fs3 \<and>
    copyAsync env fs3 p (backup_dest env) = Inr fs4 \<and>
    uri = backup_dest env \<and>
    fs' = copy_sidecars env fs4 p (backup_dest env)"
proof (cases "makeDirectoryAsync env fs (BACKUP_DIR env)")
  case (Inl e)
  with assms show ?thesis by (simp add: write_artifact_def)
next
  case m: (Inr fs3)
  show ?thesis
  proof (cases "copyAsync env fs3 p (backup_dest env)")
    case (Inl e)
    with assms m show ?thesis by (simp add: write_artifact_def)
  next
    case (Inr fs4)
    with assms m show ?thesis by (auto simp: write_artifact_def Let_def)
  qed
qed

lemma backupDatabase_success:
  assumes "backupDatabase env fs = (Inr uri, fs')"
  shows "\<exists>src. backup_source env fs = Inr src \<and>
    write_artifact env (snd (canonical_copy env (after_release env fs) src))
            (fst (canonical_copy env (after_release env fs) src)) = (Inr uri, fs')"
proof (cases "backup_source env fs")
  case (Inl e)
  with assms show ?thesis by (simp add: backupDatabase_unfold)
next
  case (Inr src)
  with assms show ?thesis by (simp add: backupDatabase_unfold)
qed


lemma copy_if_frame: "q \<noteq> b \<Longrightarrow> lookup (copy_if env c fs a b) q = lookup fs q"
  by (auto simp: copy_if_def copyAsync_def lookup_update split: sum.splits option.splits if_splits)

lemma copy_if_effect:
  assumes "lookup fs a \<noteq> None" and "\<not> copy_throws env a b"
  shows "lookup (copy_if env True fs a b) b = lookup fs a"
  using assms by (auto simp: copy_if_def copyAsync_def lookup_update)

lemma sidecar_exists_lookup: "sidecar_exists env fs p \<Longrightarrow> lookup fs p \<noteq> None"
  by (auto simp: sidecar_exists_def getInfoAsync_def split: if_splits)

lemma sidecar_exists_cong:
  "lookup fs p = lookup fs' p \<Longrightarrow> sidecar_exists env fs p = sidecar_exists env fs' p"
  by (simp add: sidecar_exists_def getInfoAsync_def)

lemma copy_sidecars_frame:
  "q \<noteq> dest @ ''-wal'' \<Longrightarrow> q \<noteq> dest @ ''-shm'' \<Longrightarrow>
   lookup (copy_sidecars env fs p dest) q = lookup fs q"
  by (simp add: copy_sidecars_def Let_def copy_if_frame)

lemma copy_sidecars_wal:
  assumes "sidecar_exists env fs (p @ ''-wal'')" and "\<not> copy_throws env (p @ ''-wal'') (dest @ ''-wal'')"
  shows "lookup (copy_sidecars env fs p dest) (dest @ ''-wal'') = lookup fs (p @ ''-wal'')"
  using assms sidecar_exists_lookup [OF assms(1)]
  by (simp add: copy_sidecars_def Let_def copy_if_frame copy_if_effect)

lemma copy_sidecars_shm:
  assumes "sidecar_exists env fs (p @ ''-shm'')" and "\<not> copy_throws env (p @ ''-shm'') (dest @ ''-shm'')"
  shows "lookup (copy_sidecars env fs p dest) (dest @ ''-shm'') = lookup fs (p @ ''-shm'')"
proof -
  let ?fs1 = "copy_if env (sidecar_exists env fs (p @ ''-wal'')) fs (p @ ''-wal'') (dest @ ''-wal'')"
  have "p @ ''-shm'' \<noteq> dest @ ''-wal''" by simp
  then have "lookup ?fs1 (p @ ''-shm'') = lookup fs (p @ ''-shm'')"
    by (rule copy_if_frame)
  with assms sidecar_exists_lookup [OF assms(1)] show ?thesis
    by (simp add: copy_sidecars_def Let_def copy_if_effect)
qed

lemma canonical_copy_lookup:
  assumes "canonical_copy env fs p = (p2, fs2)"
  shows "lookup fs2 p2 = lookup fs p"
    and "q \<noteq> p @ ''.db'' \<Longrightarrow> lookup fs2 q = lookup fs q"
    and "p2 = p \<or> p2 = p @ ''.db''"
  using assms canonical_copy_cases [of env fs p]
  by (auto simp: copyAsync_lookup)

text \<open>The state in which the artifact is written, seen from the state after the release.\<close>

lemma backup_states:
  assumes "backupDatabase env fs = (Inr uri, fs')"
  obtains src p2 fs2 fs3 fs4 where
    "backup_source env fs = Inr src"
    "canonical_copy env (after_release env fs) src = (p2, fs2)"
    "makeDirectoryAsync env fs2 (BACKUP_DIR env) = Inr fs3"
    "copyAsync env fs3 p2 (backup_dest env) = Inr fs4"
    "uri = backup_dest env"
    "fs' = copy_sidecars env fs4 p2 (backup_dest env)"
proof -
  from backupDatabase_success [OF assms] obtain src where
    s: "backup_source env fs = Inr src" and
    w: "write_artifact env (snd (canonical_copy env (after_release env fs) src))
            (fst (canonical_copy env (after_release env fs) src)) = (Inr uri, fs')"
    by blast
  obtain p2 fs2 where c: "canonical_copy env (after_release env fs) src = (p2, fs2)"
    by (cases "canonical_copy env (after_release env fs) src")
  from w c have "write_artifact env fs2 p2 = (Inr uri, fs')" by simp
  from write_artifact_success [OF this] s c that show thesis by blast
qed

lemma backup_dest_in_backups: "\<exists>n. backup_dest env = BACKUP_DIR env @ n"
  by (simp add: backup_dest_def)

lemma backup_frame:
  assumes "backupDatabase env fs = (Inr uri, fs')"
  shows "\<exists>src. backup_source env fs = Inr src \<and>
           lookup fs' src = lookup (after_release env fs) src \<and>
           lookup fs' uri = lookup (after_release env fs) src \<and>
           lookup fs' uri \<noteq> None"
proof -
  from backup_states [OF assms] obtain src p2 fs2 fs3 fs4 where
    s: "backup_source env fs = Inr src" and
    c: "canonical_copy env (after_release env fs) src = (p2, fs2)" and
    m: "makeDirectoryAsync env fs2 (BACKUP_DIR env) = Inr fs3" and
    a: "copyAsync env fs3 p2 (backup_dest env) = Inr fs4" and
    u: "uri = backup_dest env" and
    f: "fs' = copy_sidecars env fs4 p2 (backup_dest env)"
    by blast
  let ?fs1 = "after_release env fs"
  from backup_source_in_sqlite [OF s] obtain n where n: "src = SQLITE_DIR env @ n" by blast
  from canonical_copy_lookup(3) [OF c] have p2: "p2 = src \<or> p2 = src @ ''.db''" .
  obtain k where k: "backup_dest env = BACKUP_DIR env @ k"
    using backup_dest_in_backups by blast
  have src_dir: "src \<noteq> BACKUP_DIR env" "src \<noteq> backup_dest env"
    "src \<noteq> backup_dest env @ ''-wal''" "src \<noteq> backup_dest env @ ''-shm''"
    using sqlite_not_backup [of env n "[]"] sqlite_not_backup [of env n k]
      sqlite_not_backup [of env n "k @ ''-wal''"] sqlite_not_backup [of env n "k @ ''-shm''"]
    by (simp_all add: n k)
  have p2_dir: "p2 \<noteq> BACKUP_DIR env"
    using p2 sqlite_not_backup [of env n "[]"] sqlite_not_backup [of env "n @ ''.db''" "[]"]
    by (auto simp: n)
  have 1: "lookup fs2 src = lookup ?fs1 src"
    by (rule canonical_copy_lookup(2) [OF c]) simp
  have 2: "lookup fs3 src = lookup fs2 src"
    by (rule makeDirectoryAsync_lookup [OF m src_dir(1)])
  have 3: "lookup fs4 src = lookup fs3 src"
    using copyAsync_lookup(1) [OF a, of src] src_dir(2) by simp
  have 4: "lookup fs' src = lookup fs4 src"
    unfolding f by (rule copy_sidecars_frame [OF src_dir(3) src_dir(4)])
  have 5: "lookup fs3 p2 = lookup ?fs1 src"
    using makeDirectoryAsync_lookup [OF m p2_dir] canonical_copy_lookup(1) [OF c] by simp
  have 6: "lookup fs4 (backup_dest env) = lookup fs3 p2" "lookup fs3 p2 \<noteq> None"
    using copyAsync_lookup(1) [OF a, of "backup_dest env"] copyAsync_lookup(2) [OF a]
      5 by simp_all
  have 7: "lookup fs' (backup_dest env) = lookup fs4 (backup_dest env)"
    unfolding f by (rule copy_sidecars_frame) simp_all
  from s 1 2 3 4 5 6 7 u show ?thesis by simp
qed


text \<open>
  Claim C4. After a successful \<^verbatim>\<open>backupDatabase()\<close> the source database file holds
  what it held once the handles had been released (only the checkpoint of the release
  step may have changed it; no copy of the backup writes to it), and the artifact at
  the returned path exists and holds the source's bytes.
\<close>

theorem backup_non_destructive:
  assumes "backupDatabase env fs = (Inr uri, fs')"
  shows "\<exists>src. backup_source env fs = Inr src \<and>
           lookup fs' src = lookup (after_release env fs) src \<and>
           lookup fs' uri = lookup (after_release env fs) src \<and>
           lookup fs' uri \<noteq> None"
proof -
  from backup_frame [OF assms] obtain src where
    src: "backup_source env fs = Inr src" and
    kept: "lookup fs' src = lookup (after_release env fs) src" and
    copied: "lookup fs' uri = lookup (after_release env fs) src" and
    there: "lookup fs' uri \<noteq> None"
    by blast
  from src kept copied there show ?thesis by blast
qed

theorem backup_non_destructive_witness:
  "backupDatabase quiet_env fs_live = (Inr example_dest, fs_live_backed_up) \<and>
   backup_source quiet_env fs_live = Inr ''/d/SQLite/debitmanager.db'' \<and>
   lookup fs_live_backed_up ''/d/SQLite/debitmanager.db'' = Some (File [3, 4, 5]) \<and>
   lookup fs_live_backed_up example_dest = Some (File [3, 4, 5])"
proof -
  have e: "backupDatabase quiet_env fs_live = (Inr example_dest, fs_live_backed_up)"
    by code_simp
  have b: "backup_source quiet_env fs_live = Inr ''/d/SQLite/debitmanager.db''"
    by code_simp
  have r: "lookup (after_release quiet_env fs_live) ''/d/SQLite/debitmanager.db'' = Some (File [3, 4, 5])"
    by code_simp
  from backup_non_destructive [OF e] b r e show ?thesis by auto
qed

lemma copied_from_eq:
  "backup_source env fs = Inr src \<Longrightarrow>
   canonical_copy env (after_release env fs) src = (p2, fs2) \<Longrightarrow> copied_from env fs = Inr p2"
  by (simp add: copied_from_def)

lemma probe_copy_indep:
  "probe_candidates (env\<lparr>copy_throws := ct\<rparr>) fs names = probe_candidates env fs names"
  by (induction names) (simp_all add: getInfoAsync_def SQLITE_DIR_def Let_def)

lemma resolve_copy_indep:
  "resolveDatabasePath (env\<lparr>copy_throws := ct\<rparr>) fs = resolveDatabasePath env fs"
  by (simp add: resolveDatabasePath_def probe_copy_indep readDirectoryAsync_def SQLITE_DIR_def
      split: option.splits)

lemma backup_source_copy_indep:
  "backup_source (env\<lparr>copy_throws := ct\<rparr>) fs = backup_source env fs"
  by (simp add: backup_source_def resolve_copy_indep prefer_canonical_def getInfoAsync_def
      split: sum.splits)

lemma after_release_copy_indep:
  "after_release (env\<lparr>copy_throws := ct\<rparr>) fs = after_release env fs"
  by (simp add: after_release_def flush_handles_def)

lemma copyAsync_copy_indep:
  "ct a b = copy_throws env a b \<Longrightarrow> copyAsync (env\<lparr>copy_throws := ct\<rparr>) fs a b = copyAsync env fs a b"
  by (simp add: copyAsync_def)

lemma canonical_copy_copy_indep:
  "ct p (p @ ''.db'') = copy_throws env p (p @ ''.db'') \<Longrightarrow>
   canonical_copy (env\<lparr>copy_throws := ct\<rparr>) fs p = canonical_copy env fs p"
  by (simp add: canonical_copy_def copyAsync_copy_indep)

lemma backup_dest_copy_indep: "backup_dest (env\<lparr>copy_throws := ct\<rparr>) = backup_dest env"
  by (simp add: backup_dest_def BACKUP_DIR_def)

lemma write_artifact_copy_indep:
  assumes "ct p (backup_dest env) = copy_throws env p (backup_dest env)"
  shows "fst (write_artifact (env\<lparr>copy_throws := ct\<rparr>) fs p) = fst (write_artifact env fs p)"
proof -
  have m: "makeDirectoryAsync (env\<lparr>copy_throws := ct\<rparr>) fs (BACKUP_DIR (env\<lparr>copy_throws := ct\<rparr>))
      = makeDirectoryAsync env fs (BACKUP_DIR env)"
    by (simp add: makeDirectoryAsync_def BACKUP_DIR_def)
  show ?thesis
    using assms
    by (simp add: write_artifact_def m backup_dest_copy_indep copyAsync_copy_indep Let_def
        split: sum.splits)
qed

text \<open>
  The sidecars of the file the artifact is copied from. After a successful
  \<^verbatim>\<open>backupDatabase()\<close>, a \<^verbatim>\<open>-wal\<close> or \<^verbatim>\<open>-shm\<close> file that exists next to that
  file, and whose copy does not throw, has a copy of the same content next to the
  artifact under the same suffix; and whatever the copies of the sidecars do (throw or
  not), the backup still returns the artifact path.
\<close>

theorem backup_sidecars_best_effort:
  assumes "backupDatabase env fs = (Inr uri, fs')"
  shows "\<exists>src. copied_from env fs = Inr src \<and>
           (\<forall>sfx\<in>{''-wal'', ''-shm''}.
              sidecar_exists env (after_release env fs) (src @ sfx) \<and>
              \<not> copy_throws env (src @ sfx) (uri @ sfx) \<longrightarrow>
                lookup fs' (uri @ sfx) = lookup (after_release env fs) (src @ sfx) \<and>
                lookup fs' (uri @ sfx) \<noteq> None) \<and>
           (\<forall>ct. (\<forall>a b. b \<noteq> uri @ ''-wal'' \<and> b \<noteq> uri @ ''-shm'' \<longrightarrow> ct a b = copy_throws env a b) \<longrightarrow>
              fst (backupDatabase (env\<lparr>copy_throws := ct\<rparr>) fs) = Inr uri)"
proof -
  from backup_states [OF assms] obtain src p2 fs2 fs3 fs4 where
    s: "backup_source env fs = Inr src" and
    c: "canonical_copy env (after_release env fs) src = (p2, fs2)" and
    m: "makeDirectoryAsync env fs2 (BACKUP_DIR env) = Inr fs3" and
    a: "copyAsync env fs3 p2 (backup_dest env) = Inr fs4" and
    u: "uri = backup_dest env" and
    f: "fs' = copy_sidecars env fs4 p2 (backup_dest env)"
    by blast
  let ?fs1 = "after_release env fs"
  from backup_source_in_sqlite [OF s] obtain n where n: "src = SQLITE_DIR env @ n" by blast
  from canonical_copy_lookup(3) [OF c] have p2: "p2 = src \<or> p2 = src @ ''.db''" .
  obtain k where k: "backup_dest env = BACKUP_DIR env @ k"
    using backup_dest_in_backups by blast
  have side: "lookup fs4 (p2 @ sfx) = lookup ?fs1 (p2 @ sfx)"
    if "sfx = ''-wal'' \<or> sfx = ''-shm''" for sfx
  proof -
    obtain n2 where n2: "p2 @ sfx = SQLITE_DIR env @ n2"
      using p2 n by auto
    have "p2 @ sfx \<noteq> src @ ''.db''" using p2 that by auto
    then have 1: "lookup fs2 (p2 @ sfx) = lookup ?fs1 (p2 @ sfx)"
      by (rule canonical_copy_lookup(2) [OF c])
    have "p2 @ sfx \<noteq> BACKUP_DIR env"
      using sqlite_not_backup [of env n2 "[]"] by (simp add: n2)
    then have 2: "lookup fs3 (p2 @ sfx) = lookup fs2 (p2 @ sfx)"
      by (rule makeDirectoryAsync_lookup [OF m])
    have "p2 @ sfx \<noteq> backup_dest env"
      using sqlite_not_backup [of env n2 k] by (simp add: n2 k)
    then have 3: "lookup fs4 (p2 @ sfx) = lookup fs3 (p2 @ sfx)"
      using copyAsync_lookup(1) [OF a, of "p2 @ sfx"] by simp
    from 1 2 3 show ?thesis by simp
  qed
  have wal: "lookup fs' (uri @ ''-wal'') = lookup ?fs1 (p2 @ ''-wal'') \<and> lookup fs' (uri @ ''-wal'') \<noteq> None"
    if e: "sidecar_exists env ?fs1 (p2 @ ''-wal'')" and t: "\<not> copy_throws env (p2 @ ''-wal'') (uri @ ''-wal'')"
  proof -
    have e4: "sidecar_exists env fs4 (p2 @ ''-wal'')"
      using e sidecar_exists_cong [OF side [of "''-wal''"], of env] by simp
    from copy_sidecars_wal [OF e4] t sidecar_exists_lookup [OF e4] side [of "''-wal''"]
    show ?thesis by (simp add: f u)
  qed
  have shm: "lookup fs' (uri @ ''-shm'') = lookup ?fs1 (p2 @ ''-shm'') \<and> lookup fs' (uri @ ''-shm'') \<noteq> None"
    if e: "sidecar_exists env ?fs1 (p2 @ ''-shm'')" and t: "\<not> copy_throws env (p2 @ ''-shm'') (uri @ ''-shm'')"
  proof -
    have e4: "sidecar_exists env fs4 (p2 @ ''-shm'')"
      using e sidecar_exists_cong [OF side [of "''-shm''"], of env] by simp
    from copy_sidecars_shm [OF e4] t sidecar_exists_lookup [OF e4] side [of "''-shm''"]
    show ?thesis by (simp add: f u)
  qed
  have robust: "fst (backupDatabase (env\<lparr>copy_throws := ct\<rparr>) fs) = Inr uri"
    if ct: "\<forall>a b. b \<noteq> uri @ ''-wal'' \<and> b \<noteq> uri @ ''-shm'' \<longrightarrow> ct a b = copy_throws env a b" for ct
  proof -
    have "src @ ''.db'' \<noteq> uri @ ''-wal''" "src @ ''.db'' \<noteq> uri @ ''-shm''"
      using sqlite_not_backup [of env "n @ ''.db''" "k @ ''-wal''"]
        sqlite_not_backup [of env "n @ ''.db''" "k @ ''-shm''"]
      by (simp_all add: n u k)
    with ct have "ct src (src @ ''.db'') = copy_throws env src (src @ ''.db'')" by blast
    then have cc: "canonical_copy (env\<lparr>copy_throws := ct\<rparr>) ?fs1 src = (p2, fs2)"
      using c by (simp add: canonical_copy_copy_indep)
    have "ct p2 (backup_dest env) = copy_throws env p2 (backup_dest env)"
      using ct by (simp add: u)
    then have w: "fst (write_artifact (env\<lparr>copy_throws := ct\<rparr>) fs2 p2) = fst (write_artifact env fs2 p2)"
      by (rule write_artifact_copy_indep)
    have "fst (write_artifact env fs2 p2) = Inr uri"
      using m a u by (simp add: write_artifact_def Let_def)
    with w s cc show ?thesis
      by (simp add: backupDatabase_unfold backup_source_copy_indep after_release_copy_indep)
  qed
  have both: "\<forall>sfx\<in>{''-wal'', ''-shm''}.
      sidecar_exists env ?fs1 (p2 @ sfx) \<and> \<not> copy_throws env (p2 @ sfx) (uri @ sfx) \<longrightarrow>
        lookup fs' (uri @ sfx) = lookup ?fs1 (p2 @ sfx) \<and> lookup fs' (uri @ sfx) \<noteq> None"
  proof (intro ballI impI)
    fix sfx :: string
    assume "sfx \<in> {''-wal'', ''-shm''}"
      and h: "sidecar_exists env ?fs1 (p2 @ sfx) \<and> \<not> copy_throws env (p2 @ sfx) (uri @ sfx)"
    then consider "sfx = ''-wal''" | "sfx = ''-shm''" by blast
    then show "lookup fs' (uri @ sfx) = lookup ?fs1 (p2 @ sfx) \<and> lookup fs' (uri @ sfx) \<noteq> None"
    proof cases
      case 1
      with h wal show ?thesis by blast
    next
      case 2
      with h shm show ?thesis by blast
    qed
  qed
  from copied_from_eq [OF s c] both robust show ?thesis by blast
qed

theorem backup_sidecars_best_effort_witness:
  "backupDatabase quiet_env fs_live = (Inr example_dest, fs_live_backed_up) \<and>
   copied_from quiet_env fs_live = Inr ''/d/SQLite/debitmanager.db'' \<and>
   lookup fs_live_backed_up (example_dest @ ''-wal'') = Some (File [6]) \<and>
   lookup fs_live_backed_up (example_dest @ ''-shm'') = Some (File [7, 8]) \<and>
   fst (backupDatabase (quiet_env\<lparr>copy_throws := \<lambda>a b. b = example_dest @ ''-wal''\<rparr>) fs_live)
     = Inr example_dest"
proof -
  have e: "backupDatabase quiet_env fs_live = (Inr example_dest, fs_live_backed_up)"
    by code_simp
  from backup_sidecars_best_effort [OF e] obtain src where
    s: "copied_from quiet_env fs_live = Inr src" and
    sc: "\<forall>sfx\<in>{''-wal'', ''-shm''}.
          sidecar_exists quiet_env (after_release quiet_env fs_live) (src @ sfx) \<and>
          \<not> copy_throws quiet_env (src @ sfx) (example_dest @ sfx) \<longrightarrow>
            lookup fs_live_backed_up (example_dest @ sfx)
              = lookup (after_release quiet_env fs_live) (src @ sfx) \<and>
            lookup fs_live_backed_up (example_dest @ sfx) \<noteq> None" and
    r: "\<forall>ct. (\<forall>a b. b \<noteq> example_dest @ ''-wal'' \<and> b \<noteq> example_dest @ ''-shm'' \<longrightarrow>
             ct a b = copy_throws quiet_env a b) \<longrightarrow>
           fst (backupDatabase (quiet_env\<lparr>copy_throws := ct\<rparr>) fs_live) = Inr example_dest"
    by blast
  have c: "copied_from quiet_env fs_live = Inr ''/d/SQLite/debitmanager.db''"
    by code_simp
  with s have src: "src = ''/d/SQLite/debitmanager.db''" by simp
  have q: "\<not> copy_throws quiet_env a b" for a b
    by (simp add: quiet_env_def)
  have ew: "sidecar_exists quiet_env (after_release quiet_env fs_live) (''/d/SQLite/debitmanager.db'' @ ''-wal'')"
    by code_simp
  have es: "sidecar_exists quiet_env (after_release quiet_env fs_live) (''/d/SQLite/debitmanager.db'' @ ''-shm'')"
    by code_simp
  have lw: "lookup (after_release quiet_env fs_live) (''/d/SQLite/debitmanager.db'' @ ''-wal'') = Some (File [6])"
    by code_simp
  have ls: "lookup (after_release quiet_env fs_live) (''/d/SQLite/debitmanager.db'' @ ''-shm'') = Some (File [7, 8])"
    by code_simp
  from sc [rule_format, of "''-wal''"] ew q lw
  have w: "lookup fs_live_backed_up (example_dest @ ''-wal'') = Some (File [6])"
    by (simp add: src)
  from sc [rule_format, of "''-shm''"] es q ls
  have h: "lookup fs_live_backed_up (example_dest @ ''-shm'') = Some (File [7, 8])"
    by (simp add: src)
  from r [rule_format, of "\<lambda>a b. b = example_dest @ ''-wal''"] q
  have "fst (backupDatabase (quiet_env\<lparr>copy_throws := \<lambda>a b. b = example_dest @ ''-wal''\<rparr>) fs_live)
      = Inr example_dest"
    by simp
  with e c w h show ?thesis by simp
qed


lemma backupDatabase_dest:
  assumes "backupDatabase env fs = (Inr uri, fs')"
  shows "uri = backup_dest env"
  using backup_states [OF assms] by blast

text \<open>
  Claim C6. For every local wall-clock time with a four-digit year and every UTC offset
  (any offset of less than a hundred hours), the timestamp of a backup file name has the
  shape \<^verbatim>\<open>YYYY-MM-DDTHH-mm-ss\<plusminus>HHMM\<close> in zero-padded fields, and read field by field
  it gives back the local time and the local UTC offset: the year, the calendar month
  (\<^verbatim>\<open>getMonth() + 1\<close>), the day, the hours, the minutes and the seconds of the local
  clock, then the sign of the offset east of UTC (the negated
  \<^verbatim>\<open>getTimezoneOffset()\<close>; a plus for zero) and its hours and minutes. The artifact
  that \<^verbatim>\<open>backupDatabase()\<close> returns is \<^verbatim>\<open>debitmanager-<timestamp>.db\<close> in the
  backups directory.
\<close>

theorem backup_name_format:
  assumes "wall_clock (now env)" and "\<bar>getTimezoneOffset (now env)\<bar> < 6000"
  shows "matches stamp_pattern (timestamp (now env)) \<and>
         read_stamp (timestamp (now env)) =
           \<lparr>read_year = nat (getFullYear (now env)),
            read_month = nat (getMonth (now env)) + 1,
            read_day = nat (getDate (now env)),
            read_hours = nat (getHours (now env)),
            read_minutes = nat (getMinutes (now env)),
            read_seconds = nat (getSeconds (now env)),
            read_sign = (if 0 \<le> - getTimezoneOffset (now env) then CHR ''+'' else CHR ''-''),
            read_offset_hours = nat \<bar>getTimezoneOffset (now env)\<bar> div 60,
            read_offset_minutes = nat \<bar>getTimezoneOffset (now env)\<bar> mod 60\<rparr> \<and>
         (\<forall>fs uri fs'. backupDatabase env fs = (Inr uri, fs') \<longrightarrow>
            uri = BACKUP_DIR env @ ''debitmanager-'' @ timestamp (now env) @ ''.db'')"
proof -
  have "matches stamp_pattern (timestamp (now env))"
    using assms by (rule timestamp_matches)
  moreover note timestamp_reads_back [OF assms]
  moreover have "uri = BACKUP_DIR env @ ''debitmanager-'' @ timestamp (now env) @ ''.db''"
    if "backupDatabase env fs = (Inr uri, fs')" for fs uri fs'
    using backupDatabase_dest [OF that] by (simp add: backup_dest_def)
  ultimately show ?thesis by blast
qed

theorem backup_name_format_witness:
  "wall_clock (now quiet_env) \<and> \<bar>getTimezoneOffset (now quiet_env)\<bar> < 6000 \<and>
   timestamp (now quiet_env) = ''2024-03-02T14-05-09+0530'' \<and>
   matches stamp_pattern ''2024-03-02T14-05-09+0530'' \<and>
   read_stamp ''2024-03-02T14-05-09+0530'' =
     \<lparr>read_year = 2024, read_month = 3, read_day = 2, read_hours = 14, read_minutes = 5,
      read_seconds = 9, read_sign = CHR ''+'', read_offset_hours = 5, read_offset_minutes = 30\<rparr> \<and>
   fst (backupDatabase quiet_env fs_live) = Inr ''/d/backups/debitmanager-2024-03-02T14-05-09+0530.db''"
proof -
  have w: "wall_clock (now quiet_env)"
    by (simp add: wall_clock_def quiet_env_def)
  have z: "\<bar>getTimezoneOffset (now quiet_env)\<bar> < 6000"
    by (simp add: quiet_env_def)
  have t: "timestamp (now quiet_env) = ''2024-03-02T14-05-09+0530''"
    by code_simp
  have e: "backupDatabase quiet_env fs_live = (Inr example_dest, fs_live_backed_up)"
    by code_simp
  have d: "BACKUP_DIR quiet_env = ''/d/backups/''"
    by (simp add: BACKUP_DIR_def quiet_env_def)
  have n: "now quiet_env = \<lparr>getFullYear = 2024, getMonth = 2, getDate = 2, getHours = 14,
      getMinutes = 5, getSeconds = 9, getTimezoneOffset = - 330\<rparr>"
    by (simp add: quiet_env_def)
  from backup_name_format [OF w z]
  have "matches stamp_pattern (timestamp (now quiet_env))"
    and r: "read_stamp (timestamp (now quiet_env)) =
           \<lparr>read_year = nat (getFullYear (now quiet_env)),
            read_month = nat (getMonth (now quiet_env)) + 1,
            read_day = nat (getDate (now quiet_env)),
            read_hours = nat (getHours (now quiet_env)),
            read_minutes = nat (getMinutes (now quiet_env)),
            read_seconds = nat (getSeconds (now quiet_env)),
            read_sign = (if 0 \<le> - getTimezoneOffset (now quiet_env) then CHR ''+'' else CHR ''-''),
            read_offset_hours = nat \<bar>getTimezoneOffset (now quiet_env)\<bar> div 60,
            read_offset_minutes = nat \<bar>getTimezoneOffset (now quiet_env)\<bar> mod 60\<rparr>"
    and "\<forall>fs uri fs'. backupDatabase quiet_env fs = (Inr uri, fs') \<longrightarrow>
            uri = BACKUP_DIR quiet_env @ ''debitmanager-'' @ timestamp (now quiet_env) @ ''.db''"
    by blast+
  with e t d have m: "matches stamp_pattern ''2024-03-02T14-05-09+0530''"
    and x: "example_dest = ''/d/backups/debitmanager-2024-03-02T14-05-09+0530.db''"
    by auto
  from r have "read_stamp ''2024-03-02T14-05-09+0530'' =
     \<lparr>read_year = 2024, read_month = 3, read_day = 2, read_hours = 14, read_minutes = 5,
      read_seconds = 9, read_sign = CHR ''+'', read_offset_hours = 5, read_offset_minutes = 30\<rparr>"
    unfolding t by (simp add: n)
  with w z t e m x show ?thesis by simp
qed

section \<open>Properties of the remount coordinator\<close>


text \<open>
  Claim C5. With a callback registered that returns normally, a remount request that is
  accepted and a second one within one second of it give exactly one invocation of the
  callback: the second request returns \<^verbatim>\<open>false\<close> and changes nothing. A third request,
  a second or more after the accepted one, invokes the callback a second time.
\<close>

theorem remount_debounce:
  assumes reg: "providerRemountCallbackNative st"
      and first: "1000 \<le> t1 - lastNativeRefresh st"
      and within: "t2 - t1 < 1000"
      and later: "1000 \<le> t3 - t1"
      and quiet: "\<not> release_throws u" "\<not> callback_throws u (invocations st)"
        "\<not> callback_throws u (Suc (invocations st))"
  shows "\<exists>s1 s3. refreshSQLiteProvider u t1 st = (True, s1) \<and>
           refreshSQLiteProvider u t2 s1 = (False, s1) \<and>
           invocations s1 = invocations st + 1 \<and>
           refreshSQLiteProvider u t3 s1 = (True, s3) \<and>
           invocations s3 = invocations st + 2"
proof -
  let ?s1 = "st\<lparr>lastNativeRefresh := t1, invocations := Suc (invocations st)\<rparr>"
  let ?s3 = "?s1\<lparr>lastNativeRefresh := t3, invocations := Suc (Suc (invocations st))\<rparr>"
  have 1: "refreshSQLiteProvider u t1 st = (True, ?s1)"
    using reg first quiet
    by (simp add: refreshSQLiteProvider_def refresh_try_def invoke_callback_def Let_def)
  have 2: "refreshSQLiteProvider u t2 ?s1 = (False, ?s1)"
    using within by (simp add: refreshSQLiteProvider_def)
  have 3: "refreshSQLiteProvider u t3 ?s1 = (True, ?s3)"
    using reg later quiet
    by (simp add: refreshSQLiteProvider_def refresh_try_def invoke_callback_def Let_def)
  from 1 2 3 show ?thesis
    by (intro exI [of _ ?s1] exI [of _ ?s3]) simp
qed

theorem remount_debounce_witness:
  "\<exists>s1 s3. refreshSQLiteProvider quiet_ui 1700000000000 st0 = (True, s1) \<and>
     refreshSQLiteProvider quiet_ui 1700000000400 s1 = (False, s1) \<and>
     invocations s1 = 1 \<and>
     refreshSQLiteProvider quiet_ui 1700000001000 s1 = (True, s3) \<and>
     invocations s3 = 2"
proof -
  have "providerRemountCallbackNative st0" "1000 \<le> 1700000000000 - lastNativeRefresh st0"
    "\<not> release_throws quiet_ui" "\<not> callback_throws quiet_ui (invocations st0)"
    "\<not> callback_throws quiet_ui (Suc (invocations st0))" "invocations st0 = 0"
    by (simp_all add: st0_def quiet_ui_def)
  with remount_debounce [of st0 1700000000000 1700000000400 1700000001000 quiet_ui]
  show ?thesis by (simp add: numeral_2_eq_2)
qed

section \<open>Properties of the upload sinks\<close>


lemma uploadToGoogleDrive_events:
  "\<forall>e\<in>set (snd (uploadToGoogleDrive env sk u)). sink_of e = Cloud"
  "snd (uploadToGoogleDrive env sk u) \<noteq> []"
  by (auto simp: uploadToGoogleDrive_def Let_def split: sum.splits)

lemma uploadBackupIfConfigured_events:
  "\<forall>e\<in>set (snd (uploadBackupIfConfigured sk fs u)). sink_of e = Http"
  by (auto simp: uploadBackupIfConfigured_def split: sum.splits option.splits)

lemma shareBackup_events:
  "\<forall>e\<in>set (snd (shareBackup sk u)). sink_of e = Share"
  "snd (shareBackup sk u) \<noteq> []"
  by (auto simp: shareBackup_def split: sum.splits)

lemma backupNow_cases:
  assumes "backupNow env sk fs = (Inr r, tr, fs')"
  obtains u fs1 where "backupDatabase env fs = (Inr u, fs1)"
    and "fs' = setLastBackupTimestamp env sk fs1"
    and "result_uri r = u"
    and "result_googleDrive r = fst (uploadToGoogleDrive env sk u)"
    and "result_googleDrive r \<Longrightarrow>
           tr = snd (uploadToGoogleDrive env sk u) \<and> \<not> result_uploaded r \<and> \<not> result_shared r"
    and "\<not> result_googleDrive r \<Longrightarrow>
           result_uploaded r = fst (uploadBackupIfConfigured sk fs' u)"
    and "\<not> result_googleDrive r \<Longrightarrow> result_uploaded r \<Longrightarrow>
           tr = snd (uploadToGoogleDrive env sk u) @ snd (uploadBackupIfConfigured sk fs' u) \<and>
           \<not> result_shared r"
    and "\<not> result_googleDrive r \<Longrightarrow> \<not> result_uploaded r \<Longrightarrow>
           tr = snd (uploadToGoogleDrive env sk u) @ snd (uploadBackupIfConfigured sk fs' u)
                  @ snd (shareBackup sk u)"
proof (cases "backupDatabase env fs")
  case (Pair res fs1)
  show thesis
  proof (cases res)
    case (Inl e)
    with Pair assms show thesis by (simp add: backupNow_def)
  next
    case (Inr u)
    with Pair assms that [of u fs1] show thesis
      by (auto simp: backupNow_def Let_def split_beta split: if_splits)
  qed
qed

text \<open>
  Claim C8. \<^verbatim>\<open>backupNow()\<close> asks the sinks in the order cloud drive, configured HTTP
  endpoint, share sheet, and a later sink is asked only when the earlier ones did not
  answer with success. When the cloud upload answers true, the calls made are the cloud
  calls alone and the generic-upload and shared flags are false. When it does not, the
  HTTP upload comes next: if that answers true the calls end there and the shared flag
  is false; if it does not either, the share sheet is asked, and the shared flag is its
  answer. The cloud and generic-upload flags are the answers of those two sinks.
\<close>

theorem backupNow_sink_order:
  assumes "backupNow env sk fs = (Inr r, tr, fs')"
  shows "fst (backupDatabase env fs) = Inr (result_uri r) \<and>
         (fst (uploadToGoogleDrive env sk (result_uri r)) \<longrightarrow>
            tr = snd (uploadToGoogleDrive env sk (result_uri r)) \<and>
            result_googleDrive r \<and> \<not> result_uploaded r \<and> \<not> result_shared r) \<and>
         (\<not> fst (uploadToGoogleDrive env sk (result_uri r)) \<and>
          fst (uploadBackupIfConfigured sk fs' (result_uri r)) \<longrightarrow>
            tr = snd (uploadToGoogleDrive env sk (result_uri r))
                   @ snd (uploadBackupIfConfigured sk fs' (result_uri r)) \<and>
            \<not> result_googleDrive r \<and> result_uploaded r \<and> \<not> result_shared r) \<and>
         (\<not> fst (uploadToGoogleDrive env sk (result_uri r)) \<and>
          \<not> fst (uploadBackupIfConfigured sk fs' (result_uri r)) \<longrightarrow>
            tr = snd (uploadToGoogleDrive env sk (result_uri r))
                   @ snd (uploadBackupIfConfigured sk fs' (result_uri r))
                   @ snd (shareBackup sk (result_uri r)) \<and>
            \<not> result_googleDrive r \<and> \<not> result_uploaded r \<and>
            result_shared r = (fst (shareBackup sk (result_uri r)) = Inr True)) \<and>
         snd (uploadToGoogleDrive env sk (result_uri r)) \<noteq> [] \<and>
         (\<forall>e\<in>set (snd (uploadToGoogleDrive env sk (result_uri r))). sink_of e = Cloud) \<and>
         (\<forall>e\<in>set (snd (uploadBackupIfConfigured sk fs' (result_uri r))). sink_of e = Http) \<and>
         snd (shareBackup sk (result_uri r)) \<noteq> [] \<and>
         (\<forall>e\<in>set (snd (shareBackup sk (result_uri r))). sink_of e = Share)"
proof (cases "backupDatabase env fs")
  case (Pair res fs1)
  note ev = uploadToGoogleDrive_events [of env sk "result_uri r"]
    uploadBackupIfConfigured_events [of sk fs' "result_uri r"]
    shareBackup_events [of sk "result_uri r"]
  show ?thesis
  proof (cases res)
    case (Inl e)
    with Pair assms show ?thesis by (simp add: backupNow_def)
  next
    case (Inr u)
    let ?fs2 = "setLastBackupTimestamp env sk fs1"
    obtain gd t1 where g: "uploadToGoogleDrive env sk u = (gd, t1)"
      by (cases "uploadToGoogleDrive env sk u")
    obtain up t2 where h: "uploadBackupIfConfigured sk ?fs2 u = (up, t2)"
      by (cases "uploadBackupIfConfigured sk ?fs2 u")
    obtain sh t3 where s: "shareBackup sk u = (sh, t3)"
      by (cases "shareBackup sk u")
    have shv: "(case sh of Inl e \<Rightarrow> False | Inr b \<Rightarrow> b) = (sh = Inr True)"
      by (cases sh) auto
    from assms Pair Inr g h s shv
    have "result_uri r = u \<and> fs' = ?fs2 \<and> result_googleDrive r = gd \<and>
        (gd \<longrightarrow> tr = t1 \<and> \<not> result_uploaded r \<and> \<not> result_shared r) \<and>
        (\<not> gd \<longrightarrow> result_uploaded r = up) \<and>
        (\<not> gd \<and> up \<longrightarrow> tr = t1 @ t2 \<and> \<not> result_shared r) \<and>
        (\<not> gd \<and> \<not> up \<longrightarrow> tr = t1 @ t2 @ t3 \<and> result_shared r = (sh = Inr True))"
      by (auto simp: backupNow_def Let_def split: if_splits)
    with Pair Inr g h s ev show ?thesis by auto
  qed
qed

theorem backupNow_sink_order_witness:
  "backupNow quiet_env sinks_http fs_live =
     (Inr \<lparr>result_uri = example_dest, result_uploaded = True, result_shared = False,
           result_googleDrive = False\<rparr>,
      [DriveSignedIn, HttpRead example_dest, HttpPut ''https://backup.example/db''],
      fs_live_backed_up @ [(''/d/backup_meta.json'', File [1])]) \<and>
   \<not> fst (uploadToGoogleDrive quiet_env sinks_http example_dest) \<and>
   fst (uploadBackupIfConfigured sinks_http
          (fs_live_backed_up @ [(''/d/backup_meta.json'', File [1])]) example_dest) \<and>
   [DriveSignedIn, HttpRead example_dest, HttpPut ''https://backup.example/db'']
     = snd (uploadToGoogleDrive quiet_env sinks_http example_dest)
         @ snd (uploadBackupIfConfigured sinks_http
                  (fs_live_backed_up @ [(''/d/backup_meta.json'', File [1])]) example_dest) \<and>
   snd (uploadToGoogleDrive quiet_env sinks_http example_dest) = [DriveSignedIn]"
proof -
  let ?fs = "fs_live_backed_up @ [(''/d/backup_meta.json'', File [1])]"
  have e: "backupNow quiet_env sinks_http fs_live =
     (Inr \<lparr>result_uri = example_dest, result_uploaded = True, result_shared = False,
           result_googleDrive = False\<rparr>,
      [DriveSignedIn, HttpRead example_dest, HttpPut ''https://backup.example/db''], ?fs)"
    by code_simp
  have g: "\<not> fst (uploadToGoogleDrive quiet_env sinks_http example_dest)"
    by code_simp
  have u: "fst (uploadBackupIfConfigured sinks_http ?fs example_dest)"
    by code_simp
  have c: "snd (uploadToGoogleDrive quiet_env sinks_http example_dest) = [DriveSignedIn]"
    by code_simp
  from backupNow_sink_order [OF e] g u
  have "[DriveSignedIn, HttpRead example_dest, HttpPut ''https://backup.example/db'']
     = snd (uploadToGoogleDrive quiet_env sinks_http example_dest)
         @ snd (uploadBackupIfConfigured sinks_http ?fs example_dest)"
    by simp
  with e g u c show ?thesis by simp
qed

section \<open>Properties of the restore engine\<close>


lemma moveAsync_lookup:
  assumes "moveAsync env fs a b = Inr fs'" and "a \<noteq> b"
  shows "lookup fs' p = (if p = a then None else if p = b then lookup fs a else lookup fs p)"
    and "lookup fs a \<noteq> None"
  using assms
  by (auto simp: moveAsync_def lookup_update lookup_delete split: if_splits option.splits)

lemma deleteAsync_lookup:
  assumes "deleteAsync env fs a = Inr fs'"
  shows "lookup fs' p = (if p = a then None else lookup fs p)"
  using assms by (auto simp: deleteAsync_def lookup_delete split: if_splits)

lemma delete_quietly_lookup:
  "p \<noteq> a \<Longrightarrow> lookup (delete_quietly env fs a) p = lookup fs p"
  by (auto simp: delete_quietly_def deleteAsync_def lookup_delete split: sum.splits if_splits)

lemma tmp_neq [simp]:
  "c @ ''.restore.tmp'' \<noteq> c" "c @ ''.rollback.tmp'' \<noteq> c"
  "c \<noteq> c @ ''.restore.tmp''" "c \<noteq> c @ ''.rollback.tmp''"
  by simp_all

text \<open>What \<open>move_into_place\<close> does, for a temporary path other than the target.\<close>

lemma move_into_place_ok:
  assumes "move_into_place env fs tmp target = (Inr ok, fs', log)" and "tmp \<noteq> target"
  shows "lookup fs' target = lookup fs tmp" and "lookup fs tmp \<noteq> None"
    and "lookup fs' tmp = None"
    and "p \<noteq> tmp \<Longrightarrow> p \<noteq> target \<Longrightarrow> lookup fs' p = lookup fs p"
proof -
  show "lookup fs' target = lookup fs tmp" "lookup fs tmp \<noteq> None" "lookup fs' tmp = None"
    using assms
    by (auto simp: move_into_place_def moveAsync_lookup copyAsync_lookup deleteAsync_lookup
        split: sum.splits dest: moveAsync_lookup(2) copyAsync_lookup(2))
  show "lookup fs' p = lookup fs p" if "p \<noteq> tmp" "p \<noteq> target"
    using assms that
    by (auto simp: move_into_place_def moveAsync_lookup copyAsync_lookup deleteAsync_lookup
        split: sum.splits)
qed


lemma move_into_place_log:
  assumes "move_into_place env fs tmp target = (r, fs', log)" and "tmp \<noteq> target"
    and "(s, op) \<in> set log"
  shows "op = OpDelete tmp \<or> (s = fs \<and> (op = OpMove tmp target \<or> op = OpCopy tmp target))"
  using assms
  by (auto simp: move_into_place_def split: sum.splits)


lemma canonical_of_length: "length p \<le> length (canonical_of p)"
  by (simp add: canonical_of_def)

text \<open>
  Claim C2. In a local-file restore the first operation writes the picked file to
  \<^verbatim>\<open>.restore.tmp\<close> beside the canonical file, never to the canonical path; the
  canonical path is never deleted, and is only ever written by the move or the copy
  from that temporary file, attempted when the temporary file holds the whole picked
  file; the bare file is deleted only when the canonical path already holds the picked
  file.
\<close>

theorem local_restore_ordering:
  assumes run: "stage_and_swap env fs picked DB_PATH C = (r, fs', log)"
      and c: "C = canonical_of DB_PATH"
  shows "(\<exists>rest. log = (fs, OpCopy picked (C @ ''.restore.tmp'')) # rest) \<and>
         (\<forall>(s, op)\<in>set log. op \<noteq> OpDelete C) \<and>
         (\<forall>(s, op)\<in>set log. writes op C \<longrightarrow>
            (op = OpMove (C @ ''.restore.tmp'') C \<or> op = OpCopy (C @ ''.restore.tmp'') C) \<and>
            lookup s (C @ ''.restore.tmp'') = lookup fs picked \<and> lookup fs picked \<noteq> None) \<and>
         (\<forall>(s, op)\<in>set log. op = OpDelete DB_PATH \<longrightarrow>
            lookup s C = lookup fs picked \<and> lookup fs picked \<noteq> None)"
proof -
  let ?tmp = "C @ ''.restore.tmp''"
  have len: "length DB_PATH \<le> length C"
    using c canonical_of_length by simp
  then have ne: "DB_PATH \<noteq> ?tmp" "DB_PATH \<noteq> C @ ''-wal''" "DB_PATH \<noteq> C @ ''-shm''"
    by auto
  show ?thesis
  proof (cases "copyAsync env fs picked ?tmp")
    case (Inl e)
    with run have "log = [(fs, OpCopy picked ?tmp)]"
      by (auto simp: stage_and_swap_def)
    with ne show ?thesis by simp
  next
    case (Inr fs1)
    have t: "lookup fs1 ?tmp = lookup fs picked" and p: "lookup fs picked \<noteq> None"
      using copyAsync_lookup [OF Inr] by simp_all
    obtain r2 fs2 log2 where m: "move_into_place env fs1 ?tmp C = (r2, fs2, log2)"
      by (cases "move_into_place env fs1 ?tmp C") auto
    have l2: "op = OpDelete ?tmp \<or> (s = fs1 \<and> (op = OpMove ?tmp C \<or> op = OpCopy ?tmp C))"
      if "(s, op) \<in> set log2" for s op
      using move_into_place_log [OF m _ that] by simp
    have good2: "op \<noteq> OpDelete C \<and>
        (writes op C \<longrightarrow> (op = OpMove ?tmp C \<or> op = OpCopy ?tmp C) \<and>
           lookup s ?tmp = lookup fs picked \<and> lookup fs picked \<noteq> None) \<and>
        op \<noteq> OpDelete DB_PATH"
      if "(s, op) \<in> set log2" for s op
      using l2 [OF that] t p ne by auto
    show ?thesis
    proof (cases r2)
      case (Inl e)
      with run Inr m have "log = (fs, OpCopy picked ?tmp) # log2"
        by (auto simp: stage_and_swap_def)
      with good2 show ?thesis by auto
    next
      case ok: (Inr u)
      let ?fs3 = "if C \<noteq> DB_PATH then delete_quietly env fs2 DB_PATH else fs2"
      let ?fs4 = "delete_quietly env ?fs3 (C @ ''-wal'')"
      from run Inr m ok have log: "log = (fs, OpCopy picked ?tmp) # log2
          @ (if C \<noteq> DB_PATH then [(fs2, OpDelete DB_PATH)] else [])
          @ [(?fs3, OpDelete (C @ ''-wal'')), (?fs4, OpDelete (C @ ''-shm''))]"
        by (auto simp: stage_and_swap_def Let_def)
      have placed: "lookup fs2 C = lookup fs picked"
        using move_into_place_ok(1) [of env fs1 ?tmp C u fs2 log2] m ok t by simp
      from log good2 placed p ne show ?thesis by auto
    qed
  qed
qed





















theorem local_restore_ordering_witness:
  "canonical_of ''/d/SQLite/debitmanager'' = ''/d/SQLite/debitmanager.db'' \<and>
   fst (stage_and_swap quiet_env fs_legacy ''/cache/picked.db'' ''/d/SQLite/debitmanager''
          ''/d/SQLite/debitmanager.db'') = Inr () \<and>
   (\<exists>rest. snd (snd (stage_and_swap quiet_env fs_legacy ''/cache/picked.db''
          ''/d/SQLite/debitmanager'' ''/d/SQLite/debitmanager.db''))
      = (fs_legacy, OpCopy ''/cache/picked.db'' ''/d/SQLite/debitmanager.db.restore.tmp'') # rest) \<and>
   map snd (snd (snd (stage_and_swap quiet_env fs_legacy ''/cache/picked.db''
          ''/d/SQLite/debitmanager'' ''/d/SQLite/debitmanager.db'')))
      = [OpCopy ''/cache/picked.db'' ''/d/SQLite/debitmanager.db.restore.tmp'',
         OpMove ''/d/SQLite/debitmanager.db.restore.tmp'' ''/d/SQLite/debitmanager.db'',
         OpDelete ''/d/SQLite/debitmanager'',
         OpDelete ''/d/SQLite/debitmanager.db-wal'',
         OpDelete ''/d/SQLite/debitmanager.db-shm''] \<and>
   lookup (fst (snd (stage_and_swap quiet_env fs_legacy ''/cache/picked.db''
          ''/d/SQLite/debitmanager'' ''/d/SQLite/debitmanager.db''))) ''/d/SQLite/debitmanager.db''
      = Some (File [9, 9]) \<and>
   lookup (fst (snd (stage_and_swap quiet_env fs_legacy ''/cache/picked.db''
          ''/d/SQLite/debitmanager'' ''/d/SQLite/debitmanager.db''))) ''/d/SQLite/debitmanager''
      = None"
proof -
  let ?R = "stage_and_swap quiet_env fs_legacy ''/cache/picked.db''
          ''/d/SQLite/debitmanager'' ''/d/SQLite/debitmanager.db''"
  have c: "canonical_of ''/d/SQLite/debitmanager'' = ''/d/SQLite/debitmanager.db''"
    by code_simp
  have r: "?R = (fst ?R, fst (snd ?R), snd (snd ?R))" by simp
  have 1: "fst ?R = Inr ()" by code_simp
  have 2: "map snd (snd (snd ?R))
      = [OpCopy ''/cache/picked.db'' ''/d/SQLite/debitmanager.db.restore.tmp'',
         OpMove ''/d/SQLite/debitmanager.db.restore.tmp'' ''/d/SQLite/debitmanager.db'',
         OpDelete ''/d/SQLite/debitmanager'',
         OpDelete ''/d/SQLite/debitmanager.db-wal'',
         OpDelete ''/d/SQLite/debitmanager.db-shm'']"
    by code_simp
  have 3: "lookup (fst (snd ?R)) ''/d/SQLite/debitmanager.db'' = Some (File [9, 9])"
    by code_simp
  have 4: "lookup (fst (snd ?R)) ''/d/SQLite/debitmanager'' = None"
    by code_simp
  from local_restore_ordering [OF r c [symmetric]]
  have "\<exists>rest. snd (snd ?R)
      = (fs_legacy, OpCopy ''/cache/picked.db'' (''/d/SQLite/debitmanager.db'' @ ''.restore.tmp'')) # rest"
    by blast
  with c 1 2 3 4 show ?thesis by simp
qed

end
